theory Spec2Isabelle
  imports Complex_Main "HOL-Library.Multiset"
begin

section \<open>Parallel parameter search for the cStress model\<close>

text \<open>
  A shallow embedding of \<^verbatim>\<open>cStress_model_param_fold_parallel_spark.py\<close>: the work-item
  list, the index-tagged reassembly of the results collected from the parallel map, the
  aggregation of fold scores per parameter setting, the choice of the best setting,
  \<^verbatim>\<open>cross_val_probs\<close> and the scorer \<^verbatim>\<open>two_bias_scorer_CV\<close>.

  Python floats are modelled by \<^typ>\<open>real\<close>. Index arrays hold natural numbers, as the
  fold generator produces them. Every exception the code can raise is a value of
  \<open>py_error\<close>. \<open>NanScore\<close> is no exception: it marks the one run that leaves the reals,
  a mean score that is numpy's \<^verbatim>\<open>nan\<close> (see \<open>block_score\<close>).
\<close>

datatype py_error = KeyError | IndexError | ValueError | NameError | TypeError | NanScore

subsection \<open>Work items\<close>

type_synonym fold = "nat list \<times> nat list"

text \<open>
  \<^verbatim>\<open>param_grid = [(parameters, train, test) for parameters in parameter_iterable
                                               for (train, test) in cv]\<close>
\<close>

definition param_grid :: "'p list \<Rightarrow> fold list \<Rightarrow> ('p \<times> nat list \<times> nat list) list" where
  "param_grid parameter_iterable cv =
     concat (map (\<lambda>parameters. map (\<lambda>(train, test). (parameters, train, test)) cv)
                 parameter_iterable)"

text \<open>\<^verbatim>\<open>indexed_param_grid = list(zip(range(len(param_grid)), param_grid))\<close>\<close>

definition indexed_param_grid :: "'a list \<Rightarrow> (nat \<times> 'a) list" where
  "indexed_param_grid pg = zip [0..<length pg] pg"

subsection \<open>Results of one work item\<close>

text \<open>
  \<^verbatim>\<open>_fit_and_score\<close> is called with \<^verbatim>\<open>return_parameters=True\<close>; the aggregation loop
  unpacks its result as
  \<^verbatim>\<open>this_score, this_n_test_samples, _, parameters\<close>.
\<close>

type_synonym 'p fas_result = "real \<times> nat \<times> real \<times> 'p"

text \<open>
  \<^verbatim>\<open>local_fit\<close> unpacks an indexed work item, calls \<^verbatim>\<open>fas\<close> (the library's
  \<^verbatim>\<open>_fit_and_score\<close>) on the broadcast data with the search's scorer and returns the
  result under the item's index. \<^verbatim>\<open>fas\<close> is a parameter of the model; an exception
  inside it is an \<open>Inl\<close>.
\<close>

definition local_fit ::
  "('e \<Rightarrow> 'x list \<Rightarrow> int list \<Rightarrow> 's \<Rightarrow> nat list \<Rightarrow> nat list \<Rightarrow> 'p \<Rightarrow>
      py_error + 'p fas_result) \<Rightarrow>
   'e \<Rightarrow> 'x list \<Rightarrow> int list \<Rightarrow> 's \<Rightarrow>
   nat \<times> ('p \<times> nat list \<times> nat list) \<Rightarrow> py_error + (nat \<times> 'p fas_result)" where
  "local_fit fas base_estimator X y scorer tup =
     (case tup of (index, (ps, train, test)) \<Rightarrow>
        (case fas base_estimator X y scorer train test ps of
           Inl e \<Rightarrow> Inl e
         | Inr res \<Rightarrow> Inr (index, res)))"

text \<open>
  \<^verbatim>\<open>par_param_grid.map(local_fit).collect()\<close>: the job fails with the first exception of a
  task, otherwise every result is collected.
\<close>

fun collect :: "(py_error + 'a) list \<Rightarrow> py_error + 'a list" where
  "collect [] = Inr []"
| "collect (Inl e # rs) = Inl e"
| "collect (Inr r # rs) = (case collect rs of Inl e \<Rightarrow> Inl e | Inr xs \<Rightarrow> Inr (r # xs))"

subsection \<open>Reassembly of the collected results\<close>

text \<open>
  \<^verbatim>\<open>dict(pairs)\<close> inserts the pairs from left to right, so that a later pair with the same
  key replaces an earlier one.
\<close>

definition dict :: "('k \<times> 'v) list \<Rightarrow> ('k \<rightharpoonup> 'v)" where
  "dict kvs = fold (\<lambda>(k, v) m. m(k \<mapsto> v)) kvs Map.empty"

text \<open>
  \<^verbatim>\<open>out = [indexed_output[idx] for idx in range(len(param_grid))]\<close>; a missing index
  raises \<^verbatim>\<open>KeyError\<close>.
\<close>

fun lookup_all :: "(nat \<rightharpoonup> 'r) \<Rightarrow> nat list \<Rightarrow> py_error + 'r list" where
  "lookup_all indexed_output [] = Inr []"
| "lookup_all indexed_output (idx # idxs) =
     (case indexed_output idx of
        None \<Rightarrow> Inl KeyError
      | Some r \<Rightarrow>
          (case lookup_all indexed_output idxs of
             Inl e \<Rightarrow> Inl e
           | Inr rs \<Rightarrow> Inr (r # rs)))"

definition reassemble :: "(nat \<times> 'r) list \<Rightarrow> nat \<Rightarrow> py_error + 'r list" where
  "reassemble collected n_items = lookup_all (dict collected) [0..<n_items]"

subsection \<open>Aggregation of the fold scores\<close>

text \<open>
  The state of the inner loop over one block \<^verbatim>\<open>out[grid_start:grid_start + n_folds]\<close>:
  \<^verbatim>\<open>n_test_samples\<close>, \<^verbatim>\<open>score\<close>, \<^verbatim>\<open>all_scores\<close> and the loop variable \<^verbatim>\<open>parameters\<close>,
  which keeps the value of the last tuple after the loop (\<open>None\<close> while it is unbound).
\<close>

type_synonym 'p block_state = "nat \<times> real \<times> real list \<times> 'p option"

definition block_step :: "bool \<Rightarrow> 'p block_state \<Rightarrow> 'p fas_result \<Rightarrow> 'p block_state" where
  "block_step iid st res =
     (case st of (n_test_samples, score, all_scores, _) \<Rightarrow>
      case res of (this_score, this_n_test_samples, _, parameters) \<Rightarrow>
        if iid
        then (n_test_samples + this_n_test_samples,
              score + this_score * real this_n_test_samples,
              all_scores @ [this_score], Some parameters)
        else (n_test_samples, score + this_score, all_scores @ [this_score], Some parameters))"

definition block_loop :: "bool \<Rightarrow> 'p option \<Rightarrow> 'p fas_result list \<Rightarrow> 'p block_state" where
  "block_loop iid prev block = foldl (block_step iid) (0, 0, [], prev) block"

record 'p CVScoreTuple =
  parameters :: 'p
  mean_validation_score :: real
  cv_validation_scores :: "real list"

text \<open>
  The end of one pass of the outer loop: the division and the new \<^verbatim>\<open>_CVScoreTuple\<close>.
  With \<^verbatim>\<open>iid\<close> set and test sizes that sum to zero, \<^verbatim>\<open>score /= float(n_test_samples)\<close>
  divides the numpy score \<open>0.0\<close> by \<open>0.0\<close>: no exception is raised, the mean score of
  the block is \<^verbatim>\<open>nan\<close>, and the search goes on to sort tuples with a \<^verbatim>\<open>nan\<close> key. The
  reals have no such value and the order \<^verbatim>\<open>sorted\<close> gives such keys is not followed:
  the model ends this run with the mark \<open>NanScore\<close>. The main program sets
  \<^verbatim>\<open>iid=False\<close>.
\<close>

definition block_score ::
  "bool \<Rightarrow> nat \<Rightarrow> 'p block_state \<Rightarrow> py_error + 'p CVScoreTuple" where
  "block_score iid n_folds st =
     (case st of (n_test_samples, score, all_scores, ps) \<Rightarrow>
        if iid \<and> n_test_samples = 0 then Inl NanScore
        else
          (case ps of
             None \<Rightarrow> Inl NameError
           | Some p \<Rightarrow>
               Inr \<lparr>parameters = p,
                    mean_validation_score =
                      (if iid then score / real n_test_samples else score / real n_folds),
                    cv_validation_scores = all_scores\<rparr>))"

text \<open>
  \<^verbatim>\<open>range(0, n_fits, n_folds)\<close> for a positive step.
\<close>

definition grid_starts :: "nat \<Rightarrow> nat \<Rightarrow> nat list" where
  "grid_starts n_fits n_folds =
     map (\<lambda>k. k * n_folds) [0..<(n_fits + n_folds - 1) div n_folds]"

fun grid_loop ::
  "bool \<Rightarrow> nat \<Rightarrow> 'p fas_result list \<Rightarrow> 'p option \<Rightarrow> nat list \<Rightarrow>
   py_error + 'p CVScoreTuple list" where
  "grid_loop iid n_folds out prev [] = Inr []"
| "grid_loop iid n_folds out prev (grid_start # rest) =
     (let st = block_loop iid prev (take n_folds (drop grid_start out)) in
      case block_score iid n_folds st of
        Inl e \<Rightarrow> Inl e
      | Inr t \<Rightarrow>
          (case grid_loop iid n_folds out (snd (snd (snd st))) rest of
             Inl e \<Rightarrow> Inl e
           | Inr ts \<Rightarrow> Inr (t # ts)))"

text \<open>
  The whole aggregation; \<^verbatim>\<open>range\<close> raises \<^verbatim>\<open>ValueError\<close> for a zero step.
\<close>

definition aggregate ::
  "bool \<Rightarrow> nat \<Rightarrow> 'p fas_result list \<Rightarrow> py_error + 'p CVScoreTuple list" where
  "aggregate iid n_folds out =
     (if n_folds = 0 then Inl ValueError
      else grid_loop iid n_folds out None (grid_starts (length out) n_folds))"

subsection \<open>The best parameter setting\<close>

text \<open>
  \<^verbatim>\<open>sorted(xs, key=key, reverse=True)\<close>: the list is reversed, sorted by a stable ascending
  sort and reversed again, which keeps elements of equal key in their original order.
\<close>

definition sorted_reverse :: "('a \<Rightarrow> real) \<Rightarrow> 'a list \<Rightarrow> 'a list" where
  "sorted_reverse key xs = rev (sort_key key (rev xs))"

text \<open>
  \<^verbatim>\<open>best = sorted(grid_scores, key=lambda x: x.mean_validation_score, reverse=True)[0]\<close>
\<close>

definition best :: "'p CVScoreTuple list \<Rightarrow> py_error + 'p CVScoreTuple" where
  "best grid_scores =
     (case sorted_reverse mean_validation_score grid_scores of
        [] \<Rightarrow> Inl IndexError
      | b # _ \<Rightarrow> Inr b)"

text \<open>
  The part of \<^verbatim>\<open>fit\<close> that follows the parallel map: reassembly, aggregation and the
  choice of the best tuple. It returns \<^verbatim>\<open>out\<close>, \<^verbatim>\<open>grid_scores_\<close> and \<^verbatim>\<open>best\<close>.
\<close>

definition fit_collected ::
  "bool \<Rightarrow> nat \<Rightarrow> nat \<Rightarrow> (nat \<times> 'p fas_result) list \<Rightarrow>
   py_error + ('p fas_result list \<times> 'p CVScoreTuple list \<times> 'p CVScoreTuple)" where
  "fit_collected iid n_folds n_items collected =
     (case reassemble collected n_items of
        Inl e \<Rightarrow> Inl e
      | Inr out \<Rightarrow>
          (case aggregate iid n_folds out of
             Inl e \<Rightarrow> Inl e
           | Inr grid_scores \<Rightarrow>
               (case best grid_scores of
                  Inl e \<Rightarrow> Inl e
                | Inr b \<Rightarrow> Inr (out, grid_scores, b))))"

text \<open>
  \<^verbatim>\<open>fit\<close> of \<^verbatim>\<open>GridSearchCVSparkParallel\<close>; \<^verbatim>\<open>RandomGridSearchCVSparkParallel.fit\<close> has
  the same body and differs only in the parameter iterable it builds. The scorer is the
  one \<^verbatim>\<open>__init__\<close> stored: \<^verbatim>\<open>self.scorer_ = check_scoring(self.estimator,
  scoring=self.scoring)\<close>, with the library's \<^verbatim>\<open>check_scoring\<close> a parameter. The results are
  collected here in the order of the work items; \<open>fit_collected\<close> takes them in any order.
\<close>

definition GridSearchCVSparkParallel_fit ::
  "('e \<Rightarrow> 'sc option \<Rightarrow> 's) \<Rightarrow>
   ('e \<Rightarrow> 'x list \<Rightarrow> int list \<Rightarrow> 's \<Rightarrow> nat list \<Rightarrow> nat list \<Rightarrow> 'p \<Rightarrow>
      py_error + 'p fas_result) \<Rightarrow>
   'e \<Rightarrow> 'sc option \<Rightarrow> bool \<Rightarrow> 'p list \<Rightarrow> fold list \<Rightarrow> 'x list \<Rightarrow> int list \<Rightarrow>
   py_error + ('p fas_result list \<times> 'p CVScoreTuple list \<times> 'p CVScoreTuple)" where
  "GridSearchCVSparkParallel_fit check_scoring fas estimator scoring iid
       parameter_iterable cv X y =
     (if length y \<noteq> length X then Inl ValueError
      else
        let scorer = check_scoring estimator scoring;
            pg = param_grid parameter_iterable cv
        in case collect (map (local_fit fas estimator X y scorer) (indexed_param_grid pg)) of
             Inl e \<Rightarrow> Inl e
           | Inr collected \<Rightarrow> fit_collected iid (length cv) (length pg) collected)"

subsection \<open>Out-of-fold probabilities\<close>

text \<open>
  The classifier is an opaque capability: \<open>est_fit\<close> trains a model from rows and labels,
  \<open>est_predict_proba\<close> gives the probability of the positive class for one row (column 1
  of \<^verbatim>\<open>predict_proba\<close>), \<open>est_score\<close> is the classifier's own \<^verbatim>\<open>score\<close> method.
\<close>

record ('x, 'm) estimator =
  est_fit :: "'x list \<Rightarrow> int list \<Rightarrow> 'm"
  est_predict_proba :: "'m \<Rightarrow> 'x \<Rightarrow> real"
  est_score :: "'m \<Rightarrow> 'x list \<Rightarrow> int list \<Rightarrow> real"

text \<open>\<^verbatim>\<open>a[idx]\<close> for an index array: an index out of range raises \<^verbatim>\<open>IndexError\<close>.\<close>

definition take_rows :: "'a list \<Rightarrow> nat list \<Rightarrow> py_error + 'a list" where
  "take_rows a idx =
     (if \<forall>i \<in> set idx. i < length a then Inr (map (\<lambda>i. a ! i) idx) else Inl IndexError)"

text \<open>
  \<^verbatim>\<open>predicted_values[test] = temp[:, 1]\<close>: the values are stored one index after the other,
  so that the last value wins at an index that occurs twice.
\<close>

definition assign_rows :: "real list \<Rightarrow> nat list \<Rightarrow> real list \<Rightarrow> py_error + real list" where
  "assign_rows predicted_values test temp =
     (if \<forall>i \<in> set test. i < length predicted_values
      then Inr (fold (\<lambda>(i, v) pv. pv[i := v]) (zip test temp) predicted_values)
      else Inl IndexError)"

fun cross_val_loop ::
  "('x, 'm) estimator \<Rightarrow> 'x list \<Rightarrow> int list \<Rightarrow> real list \<Rightarrow> fold list \<Rightarrow>
   py_error + real list" where
  "cross_val_loop estimator X y predicted_values [] = Inr predicted_values"
| "cross_val_loop estimator X y predicted_values ((train, test) # cv) =
     (case take_rows X train of
        Inl e \<Rightarrow> Inl e
      | Inr X_train \<Rightarrow>
     (case take_rows y train of
        Inl e \<Rightarrow> Inl e
      | Inr y_train \<Rightarrow>
     (case take_rows X test of
        Inl e \<Rightarrow> Inl e
      | Inr X_test \<Rightarrow>
          (let temp = map (est_predict_proba estimator (est_fit estimator X_train y_train))
                          X_test
           in case assign_rows predicted_values test temp of
                Inl e \<Rightarrow> Inl e
              | Inr pv \<Rightarrow> cross_val_loop estimator X y pv cv))))"

text \<open>\<^verbatim>\<open>predicted_values = np.zeros(len(y))\<close>, then the loop over the folds.\<close>

definition cross_val_probs ::
  "('x, 'm) estimator \<Rightarrow> 'x list \<Rightarrow> int list \<Rightarrow> fold list \<Rightarrow> py_error + real list" where
  "cross_val_probs estimator X y cv =
     cross_val_loop estimator X y (replicate (length y) 0) cv"

subsection \<open>The two-bias scorer\<close>

text \<open>
  The counts \<^verbatim>\<open>pos\<close> and \<^verbatim>\<open>neg\<close> are numpy integers, so every division of the scorer is
  a numpy division: a zero divisor raises no exception, it gives \<^verbatim>\<open>nan\<close> (for \<open>0/0\<close>) or
  an infinity, and a comparison with \<^verbatim>\<open>nan\<close> is false. The quotients are quotients of
  counts and are compared on the reals, \<^verbatim>\<open>0.95\<close> being \<open>19/20\<close>: a quotient of counts
  other than \<open>19/20\<close> differs from it by at least \<open>1/(20 n)\<close>, far more than the rounding
  of a double for any number \<open>n\<close> of samples below \<open>10^14\<close>, so the rounded quotient
  compares with the double \<^verbatim>\<open>0.95\<close> as the exact one does with \<open>19/20\<close>.
\<close>

datatype npfloat = Finite real | PosInf | NegInf | NaN

definition np_divide :: "int \<Rightarrow> int \<Rightarrow> npfloat" where
  "np_divide a b =
     (if b \<noteq> 0 then Finite (real_of_int a / real_of_int b)
      else if a = 0 then NaN
      else if 0 < a then PosInf
      else NegInf)"

definition ge_095 :: "npfloat \<Rightarrow> bool" where
  "ge_095 v = (case v of Finite r \<Rightarrow> 19 / 20 \<le> r | PosInf \<Rightarrow> True | NegInf \<Rightarrow> False | NaN \<Rightarrow> False)"

text \<open>
  \<^verbatim>\<open>a / b >= 0.95 and c / d >= 0.95\<close>: the second quotient is computed only when the first
  comparison holds. The second component counts the divisions by zero that were carried
  out.
\<close>

definition ratio_test :: "int \<Rightarrow> int \<Rightarrow> int \<Rightarrow> int \<Rightarrow> bool \<times> nat" where
  "ratio_test a b c d =
     (if ge_095 (np_divide a b)
      then (ge_095 (np_divide c d), (if b = 0 then 1 else 0) + (if d = 0 then 1 else 0))
      else (False, (if b = 0 then 1 else 0)))"

text \<open>
  The state of the scorer's loops: \<^verbatim>\<open>tp\<close>, \<^verbatim>\<open>tn\<close>, \<^verbatim>\<open>minloss\<close>, \<^verbatim>\<open>optbias\<close>, and the
  number of divisions by zero carried out so far.
\<close>

record scorer_state =
  tp :: int
  tn :: int
  minloss :: real
  optbias :: "real list"
  zero_divisions :: nat

text \<open>
  The inner loop \<^verbatim>\<open>for j in range(i + 1, n)\<close> runs over the rows after row \<open>i\<close>;
  \<open>db_i\<close> is \<^verbatim>\<open>db[i, 0]\<close> and the head of the list is row \<open>j\<close>. The loop ends at
  \<^verbatim>\<open>break\<close> or with the last row.
\<close>

fun inner_loop ::
  "nat \<Rightarrow> nat \<Rightarrow> real \<Rightarrow> nat \<Rightarrow> (real \<times> int) list \<Rightarrow> int \<Rightarrow> int \<Rightarrow> int \<Rightarrow> int \<Rightarrow>
   scorer_state \<Rightarrow> scorer_state" where
  "inner_loop n i db_i j [] running_tp running_pos running_neg running_tn st = st"
| "inner_loop n i db_i j ((db_j, label) # rows) running_tp running_pos running_neg running_tn st =
     (let running_tp' = (if label = 1 then running_tp - 1 else running_tp);
          running_pos' = (if label = 1 then running_pos - 1 else running_pos);
          running_neg' = (if label = 1 then running_neg else running_neg - 1);
          lost = real (j - i) / real n
      in if running_pos' = 0 \<or> running_neg' = 0 then st
         else
           (case ratio_test running_tp' running_pos' running_tn running_neg' of
              (ok, z) \<Rightarrow>
                inner_loop n i db_i (Suc j) rows running_tp' running_pos' running_neg' running_tn
                  (if ok \<and> lost < minloss st
                   then st\<lparr>minloss := lost, optbias := [db_i, db_j],
                           zero_divisions := zero_divisions st + z\<rparr>
                   else st\<lparr>zero_divisions := zero_divisions st + z\<rparr>)))"

text \<open>
  The outer loop \<^verbatim>\<open>for i in range(n)\<close>; the head of the list is row \<open>i\<close>, its tail the
  rows the inner loop runs over.
\<close>

fun outer_loop ::
  "nat \<Rightarrow> int \<Rightarrow> int \<Rightarrow> nat \<Rightarrow> (real \<times> int) list \<Rightarrow> scorer_state \<Rightarrow> scorer_state" where
  "outer_loop n pos neg i [] st = st"
| "outer_loop n pos neg i ((db_i, label) # rows) st =
     (let tp' = (if label = 1 then tp st - 1 else tp st);
          tn' = (if label = 1 then tn st else tn st + 1)
      in case ratio_test tp' pos tn' neg of
           (ok, z) \<Rightarrow>
             if ok
             then outer_loop n pos neg (Suc i) rows
                    (st\<lparr>tp := tp', tn := tn', optbias := [db_i, db_i],
                        zero_divisions := zero_divisions st + z\<rparr>)
             else outer_loop n pos neg (Suc i) rows
                    (inner_loop n i db_i (Suc i) rows tp' pos neg tn'
                       (st\<lparr>tp := tp', tn := tn',
                           zero_divisions := zero_divisions st + z\<rparr>)))"

text \<open>
  The scan of the sorted rows: \<^verbatim>\<open>pos = np.sum(y == 1)\<close>, \<^verbatim>\<open>n = len(y)\<close>,
  \<^verbatim>\<open>neg = n - pos\<close>, \<^verbatim>\<open>tp, tn = pos, 0\<close>, \<^verbatim>\<open>optbias = []\<close>, \<^verbatim>\<open>minloss = 1\<close>. The loops
  read the rows \<open>0\<close> to \<open>n - 1\<close> of \<^verbatim>\<open>db\<close>.
\<close>

definition two_bias_scan :: "int list \<Rightarrow> (real \<times> int) list \<Rightarrow> scorer_state" where
  "two_bias_scan y db =
     (let pos = int (length (filter (\<lambda>label. label = 1) y));
          n = length y;
          neg = int n - pos
      in outer_loop n pos neg 0 (take n db)
           \<lparr>tp = pos, tn = 0, minloss = 1, optbias = [], zero_divisions = 0\<rparr>)"

text \<open>
  \<^verbatim>\<open>db = np.transpose(np.vstack([probs, y]))\<close> raises \<^verbatim>\<open>ValueError\<close> for vectors of
  different lengths; \<^verbatim>\<open>db = db[np.argsort(db[:, 0]), :]\<close> takes the rows in the order of
  the indices that \<^verbatim>\<open>np.argsort\<close> returns for the probabilities. \<^verbatim>\<open>np.argsort\<close> belongs to
  the library and is a parameter of the model: its default sort is not stable, and the
  order it gives rows of equal probability is that of its sorting algorithm.
\<close>

definition sorted_db ::
  "(real list \<Rightarrow> nat list) \<Rightarrow> real list \<Rightarrow> int list \<Rightarrow> py_error + (real \<times> int) list" where
  "sorted_db argsort probs y =
     (if length probs \<noteq> length y then Inl ValueError
      else take_rows (zip probs y) (argsort probs))"

text \<open>
  What a scorer returns: the score alone, or the score and the bias when \<^verbatim>\<open>ret_bias\<close> is
  set. The bias of the f1 scorer is one number, that of the two-bias scorer a list.
\<close>

datatype bias = Threshold real | Thresholds "real list"

datatype scorer_result = Score real | ScoreBias real bias

text \<open>
  The run of the scorer up to its \<^verbatim>\<open>return\<close>; reading a row that \<^verbatim>\<open>db\<close> does not have
  raises \<^verbatim>\<open>IndexError\<close>.
\<close>

definition two_bias_trace ::
  "(real list \<Rightarrow> nat list) \<Rightarrow> real list \<Rightarrow> int list \<Rightarrow> py_error + scorer_state" where
  "two_bias_trace argsort probs y =
     (case sorted_db argsort probs y of
        Inl e \<Rightarrow> Inl e
      | Inr db \<Rightarrow>
          if length db < length y then Inl IndexError
          else Inr (two_bias_scan y db))"

definition two_bias_scorer_CV ::
  "(real list \<Rightarrow> nat list) \<Rightarrow> real list \<Rightarrow> int list \<Rightarrow> bool \<Rightarrow>
   py_error + scorer_result" where
  "two_bias_scorer_CV argsort probs y ret_bias =
     (case two_bias_trace argsort probs y of
        Inl e \<Rightarrow> Inl e
      | Inr st \<Rightarrow>
          if ret_bias then Inr (ScoreBias (- minloss st) (Thresholds (optbias st)))
          else Inr (Score (- minloss st)))"

subsection \<open>The f1 scorer\<close>

text \<open>
  The loop over the thresholds of the library's \<^verbatim>\<open>precision_recall_curve\<close>, whose three
  arrays are given. A sum \<^verbatim>\<open>precision[i] + recall[i]\<close> of zero with nonzero terms gives
  an infinite or undefined quotient of a nonpositive numerator, which is not greater
  than \<^verbatim>\<open>f1\<close>.
\<close>

fun f1_loop :: "real list \<Rightarrow> real list \<Rightarrow> real list \<Rightarrow> nat \<Rightarrow> nat \<Rightarrow> real \<times> real \<Rightarrow>
    py_error + real \<times> real" where
  "f1_loop precision recall thresholds i 0 acc = Inr acc"
| "f1_loop precision recall thresholds i (Suc k) (f1, b) =
     (if length precision \<le> i \<or> length recall \<le> i then Inl IndexError
      else
        let p = precision ! i; r = recall ! i in
        if \<not> (p = 0 \<and> r = 0) \<and> p + r \<noteq> 0 \<and> f1 < 2 * (p * r) / (p + r)
        then f1_loop precision recall thresholds (Suc i) k (2 * (p * r) / (p + r), thresholds ! i)
        else f1_loop precision recall thresholds (Suc i) k (f1, b))"

definition f1_bias_scorer_CV ::
  "(int list \<Rightarrow> real list \<Rightarrow> py_error + real list \<times> real list \<times> real list) \<Rightarrow>
   real list \<Rightarrow> int list \<Rightarrow> bool \<Rightarrow> py_error + scorer_result" where
  "f1_bias_scorer_CV precision_recall_curve probs y ret_bias =
     (case precision_recall_curve y probs of
        Inl e \<Rightarrow> Inl e
      | Inr (precision, recall, thresholds) \<Rightarrow>
          (case f1_loop precision recall thresholds 0 (length thresholds) (0, 0) of
             Inl e \<Rightarrow> Inl e
           | Inr (f1, b) \<Rightarrow>
               if ret_bias then Inr (ScoreBias f1 (Threshold b)) else Inr (Score f1)))"

subsection \<open>The main program\<close>

text \<open>
  \<^verbatim>\<open>if args.scorer == 'f1': scorer = f1_bias_scorer_CV else: scorer = two_bias_scorer_CV\<close>
\<close>

definition main_scorer ::
  "(real list \<Rightarrow> nat list) \<Rightarrow>
   (int list \<Rightarrow> real list \<Rightarrow> py_error + real list \<times> real list \<times> real list) \<Rightarrow>
   string \<Rightarrow> real list \<Rightarrow> int list \<Rightarrow> bool \<Rightarrow> py_error + scorer_result" where
  "main_scorer argsort precision_recall_curve args_scorer =
     (if args_scorer = ''f1'' then f1_bias_scorer_CV precision_recall_curve
      else two_bias_scorer_CV argsort)"

text \<open>
  The end of the main program: \<^verbatim>\<open>if not bias == []\<close> the model is saved with the bias and
  the report is printed, otherwise \<^verbatim>\<open>Results not good\<close> is printed. A number is not equal
  to the empty list.
\<close>

datatype outcome = ModelSaved real bias | ResultsNotGood real

definition report :: "scorer_result \<Rightarrow> py_error + outcome" where
  "report r =
     (case r of
        Score s \<Rightarrow> Inl TypeError
      | ScoreBias s b \<Rightarrow>
          Inr (if b \<noteq> Thresholds [] then ModelSaved s b else ResultsNotGood s))"

text \<open>
  \<^verbatim>\<open>score, bias = scorer(CV_probs, trainlabels, True)\<close> and the test of the bias.
\<close>

definition final_step ::
  "(real list \<Rightarrow> int list \<Rightarrow> bool \<Rightarrow> py_error + scorer_result) \<Rightarrow>
   real list \<Rightarrow> int list \<Rightarrow> py_error + outcome" where
  "final_step scorer CV_probs trainlabels =
     (case scorer CV_probs trainlabels True of
        Inl e \<Rightarrow> Inl e
      | Inr r \<Rightarrow> report r)"

text \<open>
  \<^verbatim>\<open>cstress_spark_parallel_fold_param_model_main\<close> from the construction of the search on:
  both searches are built with \<^verbatim>\<open>scoring=None\<close> and \<^verbatim>\<open>iid=False\<close> and fitted; then
  \<^verbatim>\<open>cross_val_probs\<close> runs on the best estimator and the selected scorer is applied with
  \<^verbatim>\<open>ret_bias\<close> set. The classifier template \<open>svc\<close> maps a parameter setting to the
  classifier with these parameters; \<open>argsort\<close> and \<open>precision_recall_curve\<close> are the
  library functions the two scorers call. The result holds what the search stored and the
  outcome of the last step.
\<close>

definition cstress_main ::
  "(('p \<Rightarrow> ('x, 'm) estimator) \<Rightarrow> 'sc option \<Rightarrow> 's) \<Rightarrow>
   (('p \<Rightarrow> ('x, 'm) estimator) \<Rightarrow> 'x list \<Rightarrow> int list \<Rightarrow> 's \<Rightarrow> nat list \<Rightarrow> nat list \<Rightarrow> 'p \<Rightarrow>
      py_error + 'p fas_result) \<Rightarrow>
   (real list \<Rightarrow> nat list) \<Rightarrow>
   (int list \<Rightarrow> real list \<Rightarrow> py_error + real list \<times> real list \<times> real list) \<Rightarrow>
   ('p \<Rightarrow> ('x, 'm) estimator) \<Rightarrow> string \<Rightarrow> 'p list \<Rightarrow> 'x list \<Rightarrow> int list \<Rightarrow> fold list \<Rightarrow>
   py_error + (('p fas_result list \<times> 'p CVScoreTuple list \<times> 'p CVScoreTuple) \<times> outcome)" where
  "cstress_main check_scoring fas argsort precision_recall_curve svc args_scorer
       parameter_iterable traindata trainlabels lkf =
     (let scorer = main_scorer argsort precision_recall_curve args_scorer in
      case GridSearchCVSparkParallel_fit check_scoring fas svc None False parameter_iterable
             lkf traindata trainlabels of
        Inl e \<Rightarrow> Inl e
      | Inr clf \<Rightarrow>
          (case cross_val_probs (svc (parameters (snd (snd clf)))) traindata trainlabels lkf of
             Inl e \<Rightarrow> Inl e
           | Inr CV_probs \<Rightarrow>
               (case final_step scorer CV_probs trainlabels of
                  Inl e \<Rightarrow> Inl e
                | Inr oc \<Rightarrow> Inr (clf, oc))))"

subsection \<open>The library functions the search calls\<close>

text \<open>
  The library's \<^verbatim>\<open>check_scoring\<close> returns a scorer that calls the estimator's own
  \<^verbatim>\<open>score\<close> method when \<^verbatim>\<open>scoring\<close> is \<^verbatim>\<open>None\<close>, and the given callable otherwise.
\<close>

type_synonym ('x, 'm) sk_scorer = "('x, 'm) estimator \<Rightarrow> 'm \<Rightarrow> 'x list \<Rightarrow> int list \<Rightarrow> real"

definition sk_check_scoring ::
  "('p \<Rightarrow> ('x, 'm) estimator) \<Rightarrow> ('x, 'm) sk_scorer option \<Rightarrow> ('x, 'm) sk_scorer" where
  "sk_check_scoring estimator scoring =
     (case scoring of
        None \<Rightarrow> (\<lambda>est m X_test y_test. est_score est m X_test y_test)
      | Some scorer \<Rightarrow> scorer)"

text \<open>
  The library's \<^verbatim>\<open>_fit_and_score\<close> sets the parameters, fits on the train rows, applies
  the scorer to the fitted estimator on the test rows and, with
  \<^verbatim>\<open>return_parameters=True\<close>, returns the test score, the number of test rows, the
  scoring time (not modelled, zero here) and the parameters.
\<close>

definition sk_fit_and_score ::
  "('p \<Rightarrow> ('x, 'm) estimator) \<Rightarrow> 'x list \<Rightarrow> int list \<Rightarrow> ('x, 'm) sk_scorer \<Rightarrow>
   nat list \<Rightarrow> nat list \<Rightarrow> 'p \<Rightarrow> py_error + 'p fas_result" where
  "sk_fit_and_score estimator X y scorer train test ps =
     (case take_rows X train of
        Inl e \<Rightarrow> Inl e
      | Inr X_train \<Rightarrow>
     (case take_rows y train of
        Inl e \<Rightarrow> Inl e
      | Inr y_train \<Rightarrow>
     (case take_rows X test of
        Inl e \<Rightarrow> Inl e
      | Inr X_test \<Rightarrow>
     (case take_rows y test of
        Inl e \<Rightarrow> Inl e
      | Inr y_test \<Rightarrow>
          (let est = estimator ps;
               m = est_fit est X_train y_train
           in Inr (scorer est m X_test y_test, length test, 0, ps))))))"

text \<open>
  A classifier for the examples: its rows are numbers, its model is trivial, the
  probability of the positive class is the row itself, and its score is the accuracy of
  the decision at one half.
\<close>

definition accuracy :: "real list \<Rightarrow> int list \<Rightarrow> real" where
  "accuracy X_test y_test =
     real (length (filter (\<lambda>(x, l). (if 1 / 2 \<le> x then 1 else 0) = l) (zip X_test y_test)))
       / real (length y_test)"

definition toy_svc :: "unit \<Rightarrow> (real, unit) estimator" where
  "toy_svc ps =
     \<lparr>est_fit = (\<lambda>X_train y_train. ()),
      est_predict_proba = (\<lambda>m x. x),
      est_score = (\<lambda>m X_test y_test. accuracy X_test y_test)\<rparr>"

text \<open>
  A classifier that remembers its training rows: the probability of the positive class
  is the label of the row in the training data, and one half for a row it has not seen.
\<close>

definition memo_svc :: "(real, (real \<times> int) list) estimator" where
  "memo_svc =
     \<lparr>est_fit = (\<lambda>X_train y_train. zip X_train y_train),
      est_predict_proba =
        (\<lambda>m x. case map_of m x of None \<Rightarrow> 1 / 2 | Some label \<Rightarrow> real_of_int label),
      est_score =
        (\<lambda>m X_test y_test.
           accuracy (map (\<lambda>x. case map_of m x of None \<Rightarrow> 1 / 2
                                | Some label \<Rightarrow> real_of_int label) X_test) y_test)\<rparr>"

text \<open>
  \<^verbatim>\<open>np.argsort\<close> on short arrays: up to 16 elements its quicksort sorts by insertion alone,
  which keeps equal elements in their input order. The examples have at most four rows.
\<close>

definition insertion_argsort :: "real list \<Rightarrow> nat list" where
  "insertion_argsort a = map snd (sort_key fst (zip a [0..<length a]))"

subsection \<open>Threshold pairs that meet both constraints\<close>

text \<open>
  The cut pair \<open>(i, j)\<close> of the sorted rows, \<open>i \<le> j\<close>: rows up to \<open>i\<close> are decided
  negative, rows after \<open>j\<close> are decided positive, the rows between are rejected. The pair
  is feasible when both classes occur among the decided rows and, among them, at least
  95 percent of the positives are decided positive and at least 95 percent of the
  negatives are decided negative. \<open>i = j\<close> is a single cut.
\<close>

definition count_pos :: "(real \<times> int) list \<Rightarrow> nat" where
  "count_pos rows = length (filter (\<lambda>(p, label). label = 1) rows)"

definition count_neg :: "(real \<times> int) list \<Rightarrow> nat" where
  "count_neg rows = length (filter (\<lambda>(p, label). label \<noteq> 1) rows)"

definition feasible :: "(real \<times> int) list \<Rightarrow> nat \<Rightarrow> nat \<Rightarrow> bool" where
  "feasible db i j =
     (let low = take (Suc i) db;
          high = drop (Suc j) db;
          decided_pos = count_pos low + count_pos high;
          decided_neg = count_neg low + count_neg high
      in decided_pos \<noteq> 0 \<and> decided_neg \<noteq> 0 \<and>
         19 / 20 \<le> real (count_pos high) / real decided_pos \<and>
         19 / 20 \<le> real (count_neg low) / real decided_neg)"

text \<open>
  A pair of threshold values \<open>lo\<close>, \<open>hi\<close> as the main program applies a bias to the
  probabilities: \<^verbatim>\<open>classified\<close> are the samples with \<^verbatim>\<open>CV_probs <= bias[0]\<close> or
  \<^verbatim>\<open>CV_probs >= bias[1]\<close>, and a classified sample is predicted positive when
  \<^verbatim>\<open>CV_probs >= bias[1]\<close>. The pair meets both constraints when both classes occur among
  the classified samples, at least 95 percent of the classified positives are predicted
  positive and at least 95 percent of the classified negatives are predicted negative.
\<close>

definition threshold_feasible :: "real list \<Rightarrow> int list \<Rightarrow> real \<Rightarrow> real \<Rightarrow> bool" where
  "threshold_feasible probs y lo hi =
     (let classified = filter (\<lambda>(p, label). p \<le> lo \<or> hi \<le> p) (zip probs y);
          positives = filter (\<lambda>(p, label). label = 1) classified;
          negatives = filter (\<lambda>(p, label). label \<noteq> 1) classified
      in positives \<noteq> [] \<and> negatives \<noteq> [] \<and>
         19 / 20 \<le> real (length (filter (\<lambda>(p, label). hi \<le> p) positives))
                     / real (length positives) \<and>
         19 / 20 \<le> real (length (filter (\<lambda>(p, label). \<not> hi \<le> p) negatives))
                     / real (length negatives))"

text \<open>The parameters in the result of a work item.\<close>

definition params_of :: "'p fas_result \<Rightarrow> 'p" where
  "params_of res = snd (snd (snd res))"

section \<open>Reassembly in generation order\<close>

lemma dict_map_of: "dict kvs = map_of (rev kvs)"
proof -
  have "fold (\<lambda>(k, v) m. m(k \<mapsto> v)) kvs m0 = m0 ++ map_of (rev kvs)" for m0 :: "'a \<rightharpoonup> 'b"
    by (induction kvs arbitrary: m0) (auto simp: map_add_upd)
  then show ?thesis by (simp add: dict_def)
qed

lemma lookup_all_total:
  "\<forall>idx \<in> set idxs. \<exists>r. m idx = Some r \<Longrightarrow> lookup_all m idxs = Inr (map (\<lambda>idx. the (m idx)) idxs)"
  by (induction idxs) auto

lemma dict_of_permutation:
  assumes "mset collected = mset (zip [0..<length rs] rs)" and "i < length rs"
  shows "dict collected i = Some (rs ! i)"
proof -
  have "mset (map fst (rev collected)) = mset (map fst (zip [0..<length rs] rs))"
    using assms(1) by (metis mset_map mset_rev)
  then have "mset (map fst (rev collected)) = mset [0..<length rs]" by simp
  then have d: "distinct (map fst (rev collected))"
    by (metis distinct_upt mset_eq_imp_distinct_iff)
  have "set (rev collected) = set (zip [0..<length rs] rs)"
    using assms(1) by (metis mset_eq_setD set_rev)
  moreover have "(i, rs ! i) \<in> set (zip [0..<length rs] rs)"
    using assms(2) by (force simp: set_zip)
  ultimately have "(i, rs ! i) \<in> set (rev collected)" by simp
  with d show ?thesis by (simp add: dict_map_of)
qed

lemma reassemble_permutation:
  assumes "mset collected = mset (zip [0..<length rs] rs)"
  shows "reassemble collected (length rs) = Inr rs"
proof -
  have "lookup_all (dict collected) [0..<length rs]
        = Inr (map (\<lambda>idx. the (dict collected idx)) [0..<length rs])"
    by (rule lookup_all_total) (simp add: dict_of_permutation [OF assms])
  also have "map (\<lambda>idx. the (dict collected idx)) [0..<length rs] = map (\<lambda>idx. rs ! idx) [0..<length rs]"
    by (rule map_cong) (simp_all add: dict_of_permutation [OF assms])
  also have "\<dots> = rs" by (rule map_nth)
  finally show ?thesis by (simp add: reassemble_def)
qed

text \<open>
  Claim C1. Whatever the order in which the tasks complete, that is, for every permutation
  \<open>collected\<close> of the index-tagged results, looking up the indices \<open>0..N-1\<close> in the
  dictionary of the collected pairs gives the results in generation order; the
  reassembled sequence, the grid scores and the best tuple are those of the results
  collected in generation order.
\<close>

theorem fit_any_completion_order:
  assumes "mset collected = mset (indexed_param_grid rs)"
  shows "reassemble collected (length rs) = Inr rs \<and>
         fit_collected iid n_folds (length rs) collected =
         fit_collected iid n_folds (length rs) (indexed_param_grid rs)"
proof -
  have a: "reassemble collected (length rs) = Inr rs"
    using assms by (simp add: reassemble_permutation indexed_param_grid_def)
  have b: "reassemble (indexed_param_grid rs) (length rs) = Inr rs"
    by (simp add: reassemble_permutation indexed_param_grid_def)
  show ?thesis using a b by (simp add: fit_collected_def)
qed

theorem fit_any_completion_order_witness:
  "mset [(1, (1/4, 1, 0, ''b'')), (0, (1/2, 1::nat, 0::real, ''a''))]
     = mset (indexed_param_grid [(1/2, 1::nat, 0::real, ''a''), (1/4::real, 1, 0, ''b'')]) \<and>
   reassemble [(1, (1/4, 1, 0, ''b'')), (0, (1/2, 1::nat, 0::real, ''a''))] 2
     = Inr [(1/2, 1::nat, 0::real, ''a''), (1/4::real, 1, 0, ''b'')] \<and>
   fit_collected False 1 2 [(1, (1/4, 1, 0, ''b'')), (0, (1/2, 1::nat, 0::real, ''a''))]
     = fit_collected False 1 2 (indexed_param_grid [(1/2, 1::nat, 0::real, ''a''), (1/4::real, 1, 0, ''b'')])"
proof -
  have h: "mset [(1, (1/4, 1, 0, ''b'')), (0, (1/2, 1::nat, 0::real, ''a''))]
     = mset (indexed_param_grid [(1/2, 1::nat, 0::real, ''a''), (1/4::real, 1, 0, ''b'')])"
    by (simp add: indexed_param_grid_def upt_rec)
  have l: "length [(1/2, 1::nat, 0::real, ''a''), (1/4::real, 1, 0, ''b'')] = 2" by simp
  show ?thesis
    using h fit_any_completion_order [OF h, of False 1] unfolding l by blast
qed

section \<open>The best parameter setting\<close>

lemma sorted_le_last: "sorted zs \<Longrightarrow> v \<in> set zs \<Longrightarrow> v \<le> last (zs :: real list)"
  by (induction zs) auto

lemma last_filter_keep: "zs \<noteq> [] \<Longrightarrow> P (last zs) \<Longrightarrow> last (filter P zs) = last zs"
proof (induction zs)
  case Nil
  then show ?case by simp
next
  case (Cons z zs)
  show ?case
  proof (cases "zs = []")
    case True
    with Cons.prems show ?thesis by simp
  next
    case False
    with Cons.prems have "P (last zs)" by simp
    moreover have "last zs \<in> set zs" using False by simp
    ultimately have "filter P zs \<noteq> []" by (auto simp: filter_empty_conv)
    with Cons False \<open>P (last zs)\<close> show ?thesis by simp
  qed
qed

lemma sorted_reverse_hd:
  assumes "xs \<noteq> []"
  shows "\<exists>pre b post. xs = pre @ b # post \<and> hd (sorted_reverse f xs) = b \<and>
           sorted_reverse f xs \<noteq> [] \<and>
           (\<forall>t \<in> set pre. f t < f b) \<and> (\<forall>t \<in> set post. f t \<le> f b)"
proof -
  define ys where "ys = sort_key f (rev xs)"
  define b where "b = last ys"
  have "length ys = length xs" by (simp add: ys_def)
  with assms have ne: "ys \<noteq> []" by auto
  have hd_b: "hd (sorted_reverse f xs) = b"
    using ne by (simp add: sorted_reverse_def ys_def [symmetric] b_def hd_rev)
  have set_ys: "set ys = set xs" by (simp add: ys_def)
  have "sorted (map f ys)" by (simp add: ys_def)
  then have "\<forall>v \<in> set (map f ys). v \<le> last (map f ys)"
    using sorted_le_last by blast
  then have ub: "\<forall>t \<in> set xs. f t \<le> f b"
    using ne set_ys by (simp add: last_map b_def)
  have "filter (\<lambda>y. f y = f b) ys = filter (\<lambda>y. f y = f b) (rev xs)"
    unfolding ys_def by (rule sort_key_stable)
  moreover have "last (filter (\<lambda>y. f y = f b) ys) = b"
    using ne by (simp add: last_filter_keep b_def)
  ultimately have "last (rev (filter (\<lambda>y. f y = f b) xs)) = b"
    by (simp add: rev_filter)
  moreover have "filter (\<lambda>y. f y = f b) xs \<noteq> []"
  proof -
    have "b \<in> set xs" using ne set_ys b_def last_in_set by blast
    then show ?thesis by (auto simp: filter_empty_conv)
  qed
  ultimately have "\<exists>rest. filter (\<lambda>y. f y = f b) xs = b # rest"
    by (cases "filter (\<lambda>y. f y = f b) xs") (auto simp: last_rev)
  then obtain pre post where dec: "xs = pre @ b # post" and pre: "\<forall>u \<in> set pre. f u \<noteq> f b"
    by (auto simp: filter_eq_Cons_iff)
  have "\<forall>t \<in> set pre. f t < f b"
    using pre ub dec by (auto simp: less_le)
  moreover have "\<forall>t \<in> set post. f t \<le> f b" using ub dec by auto
  moreover have "sorted_reverse f xs \<noteq> []" using ne by (simp add: sorted_reverse_def ys_def)
  ultimately show ?thesis using dec hd_b by blast
qed

text \<open>
  Claim C7. For a nonempty sequence of grid scores, the search selects a tuple of maximal
  mean validation score, and among the tuples of maximal score the earliest one of the
  sequence: every tuple before it has a strictly smaller score, every tuple after it a
  score that is not greater.
\<close>

theorem best_is_first_maximum:
  assumes "grid_scores \<noteq> []"
  shows "\<exists>pre b post. grid_scores = pre @ b # post \<and> best grid_scores = Inr b \<and>
           (\<forall>t \<in> set pre. mean_validation_score t < mean_validation_score b) \<and>
           (\<forall>t \<in> set post. mean_validation_score t \<le> mean_validation_score b)"
proof -
  obtain pre b post where
    "grid_scores = pre @ b # post" "hd (sorted_reverse mean_validation_score grid_scores) = b"
    "sorted_reverse mean_validation_score grid_scores \<noteq> []"
    "\<forall>t \<in> set pre. mean_validation_score t < mean_validation_score b"
    "\<forall>t \<in> set post. mean_validation_score t \<le> mean_validation_score b"
    using sorted_reverse_hd [OF assms, of mean_validation_score] by blast
  moreover from this have "best grid_scores = Inr b"
    by (cases "sorted_reverse mean_validation_score grid_scores") (auto simp: best_def)
  ultimately show ?thesis by blast
qed

theorem best_is_first_maximum_witness:
  "[\<lparr>parameters = ''a'', mean_validation_score = 1/2, cv_validation_scores = [1/2]\<rparr>,
    \<lparr>parameters = ''b'', mean_validation_score = 3/4, cv_validation_scores = [3/4]\<rparr>,
    \<lparr>parameters = ''c'', mean_validation_score = 3/4, cv_validation_scores = [3/4]\<rparr>] \<noteq> [] \<and>
   (\<exists>pre post.
      [\<lparr>parameters = ''a'', mean_validation_score = 1/2, cv_validation_scores = [1/2]\<rparr>,
       \<lparr>parameters = ''b'', mean_validation_score = 3/4, cv_validation_scores = [3/4]\<rparr>,
       \<lparr>parameters = ''c'', mean_validation_score = 3/4, cv_validation_scores = [3/4]\<rparr>]
        = pre @ \<lparr>parameters = ''b'', mean_validation_score = 3/4, cv_validation_scores = [3/4]\<rparr> # post \<and>
      best [\<lparr>parameters = ''a'', mean_validation_score = 1/2, cv_validation_scores = [1/2]\<rparr>,
            \<lparr>parameters = ''b'', mean_validation_score = 3/4, cv_validation_scores = [3/4]\<rparr>,
            \<lparr>parameters = ''c'', mean_validation_score = 3/4, cv_validation_scores = [3/4]\<rparr>]
        = Inr \<lparr>parameters = ''b'', mean_validation_score = 3/4, cv_validation_scores = [3/4]\<rparr>)"
proof -
  have e: "best [\<lparr>parameters = ''a'', mean_validation_score = 1/2, cv_validation_scores = [1/2]\<rparr>,
            \<lparr>parameters = ''b'', mean_validation_score = 3/4, cv_validation_scores = [3/4]\<rparr>,
            \<lparr>parameters = ''c'', mean_validation_score = 3/4, cv_validation_scores = [3/4]\<rparr>]
        = Inr \<lparr>parameters = ''b'', mean_validation_score = 3/4, cv_validation_scores = [3/4]\<rparr>"
    by (simp add: best_def sorted_reverse_def)
  have h: "[\<lparr>parameters = ''a'', mean_validation_score = 1/2, cv_validation_scores = [1/2]\<rparr>,
    \<lparr>parameters = ''b'', mean_validation_score = 3/4, cv_validation_scores = [3/4]\<rparr>,
    \<lparr>parameters = ''c'', mean_validation_score = 3/4, cv_validation_scores = [3/4::real]\<rparr>] \<noteq> []"
    by simp
  from best_is_first_maximum [OF h] obtain pre b post where
    "[\<lparr>parameters = ''a'', mean_validation_score = 1/2, cv_validation_scores = [1/2]\<rparr>,
      \<lparr>parameters = ''b'', mean_validation_score = 3/4, cv_validation_scores = [3/4]\<rparr>,
      \<lparr>parameters = ''c'', mean_validation_score = 3/4, cv_validation_scores = [3/4]\<rparr>]
        = pre @ b # post"
    "best [\<lparr>parameters = ''a'', mean_validation_score = 1/2, cv_validation_scores = [1/2]\<rparr>,
            \<lparr>parameters = ''b'', mean_validation_score = 3/4, cv_validation_scores = [3/4]\<rparr>,
            \<lparr>parameters = ''c'', mean_validation_score = 3/4, cv_validation_scores = [3/4]\<rparr>]
        = Inr b"
    by blast
  with e h show ?thesis by auto
qed

section \<open>Blocks of work items\<close>

lemma param_grid_Cons:
  "param_grid (p # ps) cv = map (\<lambda>(train, test). (p, train, test)) cv @ param_grid ps cv"
  by (simp add: param_grid_def)

lemma length_param_grid: "length (param_grid ps cv) = length ps * length cv"
  by (induction ps) (simp_all add: param_grid_Cons, simp add: param_grid_def)

lemma param_grid_block:
  "k < length ps \<Longrightarrow>
   take (length cv) (drop (k * length cv) (param_grid ps cv)) =
   map (\<lambda>(train, test). (ps ! k, train, test)) cv"
proof (induction ps arbitrary: k)
  case Nil
  then show ?case by simp
next
  case (Cons p ps)
  show ?case
  proof (cases k)
    case 0
    then show ?thesis by (simp add: param_grid_Cons)
  next
    case (Suc j)
    with Cons.prems have "j < length ps" by simp
    from Cons.IH [OF this] show ?thesis
      using Suc by (simp add: param_grid_Cons)
  qed
qed

lemma block_loop_params:
  "block \<noteq> [] \<Longrightarrow>
   snd (snd (snd (block_loop iid prev block))) = Some (params_of (last block))"
proof (induction block rule: rev_induct)
  case Nil
  then show ?case by simp
next
  case (snoc res block)
  obtain a b c d where st: "foldl (block_step iid) (0, 0, [], prev) block = (a, b, c, d)"
    by (metis prod_cases4)
  obtain s m t p where res: "res = (s, m, t, p)" by (metis prod_cases4)
  show ?case by (simp add: block_loop_def st res block_step_def params_of_def)
qed

lemma block_score_not_iid:
  "snd (snd (snd st)) = Some p \<Longrightarrow>
   \<exists>t. block_score False n_folds st = Inr t \<and> parameters t = p"
  by (cases st) (auto simp: block_score_def)

lemma block_score_params:
  "snd (snd (snd st)) = Some p \<Longrightarrow> block_score iid n_folds st = Inr t \<Longrightarrow> parameters t = p"
  by (cases st) (auto simp: block_score_def split: if_splits)

lemma grid_loop_params:
  assumes blocks: "\<forall>k < length ps. take n (drop (k * n) out) \<noteq> [] \<and>
                     params_of (last (take n (drop (k * n) out))) = ps ! k"
  shows "a \<le> length ps \<Longrightarrow>
         grid_loop iid n out prev (map (\<lambda>k. k * n) [a..<length ps]) = Inr gs \<Longrightarrow>
         map parameters gs = drop a ps"
proof (induction "length ps - a" arbitrary: a prev gs)
  case 0
  then show ?case by simp
next
  case (Suc d)
  then have lt: "a < length ps" by simp
  define st where "st = block_loop iid prev (take n (drop (a * n) out))"
  have p: "snd (snd (snd st)) = Some (ps ! a)"
    using blocks lt by (simp add: st_def block_loop_params)
  from Suc.prems(2) lt obtain t ts where
    t: "block_score iid n st = Inr t" and
    ts: "grid_loop iid n out (snd (snd (snd st))) (map (\<lambda>k. k * n) [Suc a..<length ps]) = Inr ts" and
    gs: "gs = t # ts"
    by (auto simp: upt_conv_Cons Let_def st_def [symmetric] split: sum.splits)
  have "map parameters ts = drop (Suc a) ps"
    using Suc.hyps(1) [of "Suc a"] Suc.hyps(2) lt ts by simp
  moreover have "parameters t = ps ! a" using block_score_params [OF p t] .
  ultimately show ?case using gs lt by (simp add: Cons_nth_drop_Suc)
qed

lemma grid_loop_not_iid:
  assumes blocks: "\<forall>k < length ps. take n (drop (k * n) out) \<noteq> [] \<and>
                     params_of (last (take n (drop (k * n) out))) = ps ! k"
  shows "a \<le> length ps \<Longrightarrow>
         \<exists>gs. grid_loop False n out prev (map (\<lambda>k. k * n) [a..<length ps]) = Inr gs"
proof (induction "length ps - a" arbitrary: a prev)
  case 0
  then show ?case by simp
next
  case (Suc d)
  then have lt: "a < length ps" by simp
  define st where "st = block_loop False prev (take n (drop (a * n) out))"
  have p: "snd (snd (snd st)) = Some (ps ! a)"
    using blocks lt by (simp add: st_def block_loop_params)
  obtain t where t: "block_score False n st = Inr t"
    using block_score_not_iid [OF p] by blast
  have d: "d = length ps - Suc a" using Suc.hyps(2) by simp
  have le: "Suc a \<le> length ps" using lt by simp
  obtain ts where
    "grid_loop False n out (snd (snd (snd st))) (map (\<lambda>k. k * n) [Suc a..<length ps]) = Inr ts"
    using Suc.hyps(1) [OF d le, of "snd (snd (snd st))"] by blast
  with t show ?case using lt by (simp add: upt_conv_Cons Let_def st_def [symmetric])
qed

lemma grid_starts_multiple: "0 < n \<Longrightarrow> grid_starts (K * n) n = map (\<lambda>k. k * n) [0..<K]"
proof -
  assume n: "0 < n"
  obtain m where m: "n = Suc m" using n by (cases n) auto
  have "m + K * Suc m < Suc K * Suc m" by simp
  then have "(m + K * Suc m) div Suc m < Suc K"
    by (metis less_mult_imp_div_less)
  moreover have "K * Suc m \<le> m + K * Suc m" by simp
  then have "K \<le> (m + K * Suc m) div Suc m"
    by (metis div_mult_self_is_m zero_less_Suc div_le_mono)
  ultimately have "(m + K * Suc m) div Suc m = K" by simp
  moreover have "K * n + n - 1 = m + K * Suc m" by (simp add: m)
  ultimately have "(K * n + n - 1) div n = K" by (simp only: m)
  then show ?thesis by (simp add: grid_starts_def)
qed

lemma out_blocks:
  assumes cv: "cv \<noteq> []"
    and len: "length out = length (param_grid ps cv)"
    and par: "\<forall>idx < length out. params_of (out ! idx) = fst (param_grid ps cv ! idx)"
    and k: "k < length ps"
  shows "take (length cv) (drop (k * length cv) out) \<noteq> [] \<and>
         params_of (last (take (length cv) (drop (k * length cv) out))) = ps ! k"
proof -
  define n where "n = length cv"
  have n: "0 < n" using cv by (simp add: n_def)
  have lo: "length out = length ps * n" using len by (simp add: length_param_grid n_def)
  have "k * n + n \<le> length ps * n"
  proof -
    have "Suc k \<le> length ps" using k by simp
    then have "Suc k * n \<le> length ps * n" by (rule mult_le_mono1)
    then show ?thesis by (simp add: add.commute)
  qed
  then have bound: "k * n + n \<le> length out" using lo by simp
  then have lb: "length (take n (drop (k * n) out)) = n" by simp
  then have ne: "take n (drop (k * n) out) \<noteq> []" using n by auto
  have idx: "k * n + (n - 1) < length out" using bound n by simp
  have "last (take n (drop (k * n) out)) = take n (drop (k * n) out) ! (n - 1)"
    using ne lb by (simp add: last_conv_nth)
  also have "\<dots> = out ! (k * n + (n - 1))" using n bound by simp
  finally have "params_of (last (take n (drop (k * n) out))) =
                fst (param_grid ps cv ! (k * n + (n - 1)))"
    using par idx by simp
  also have "param_grid ps cv ! (k * n + (n - 1)) =
             take n (drop (k * n) (param_grid ps cv)) ! (n - 1)"
    using n bound len by simp
  also have "\<dots> = map (\<lambda>(train, test). (ps ! k, train, test)) cv ! (n - 1)"
    using param_grid_block [OF k, of cv] by (simp add: n_def)
  also have "fst \<dots> = ps ! k"
    using n by (simp add: n_def split_beta)
  finally show ?thesis using ne by (simp add: n_def)
qed

text \<open>
  Claim C9. In the work-item list, the block of \<open>n_folds\<close> consecutive items that starts
  at \<open>k * n_folds\<close> carries the \<open>k\<close>-th parameter setting in every item. Hence, for
  results in generation order that carry the parameters of their items, the aggregation
  loop, which takes the parameters left by the last tuple of a block, gives the grid
  scores the parameter settings in generation order; without \<^verbatim>\<open>iid\<close> it always returns.
\<close>

theorem blocks_carry_one_setting:
  assumes "cv \<noteq> []"
    and "length out = length (param_grid ps cv)"
    and "\<forall>idx < length out. snd (snd (snd (out ! idx))) = fst (param_grid ps cv ! idx)"
  shows "(\<forall>k < length ps.
            \<forall>item \<in> set (take (length cv) (drop (k * length cv) (param_grid ps cv))).
              fst item = ps ! k) \<and>
         (\<forall>iid gs. aggregate iid (length cv) out = Inr gs \<longrightarrow> map parameters gs = ps) \<and>
         (\<exists>gs. aggregate False (length cv) out = Inr gs)"
proof -
  have par: "\<forall>idx < length out. params_of (out ! idx) = fst (param_grid ps cv ! idx)"
    using assms(3) by (simp add: params_of_def)
  have blocks: "\<forall>k < length ps. take (length cv) (drop (k * length cv) out) \<noteq> [] \<and>
                  params_of (last (take (length cv) (drop (k * length cv) out))) = ps ! k"
    using out_blocks [OF assms(1,2) par] by blast
  have n: "0 < length cv" using assms(1) by simp
  have starts: "grid_starts (length out) (length cv) = map (\<lambda>k. k * length cv) [0..<length ps]"
    using grid_starts_multiple [OF n, of "length ps"] assms(2) by (simp add: length_param_grid)
  have 1: "\<forall>k < length ps.
            \<forall>item \<in> set (take (length cv) (drop (k * length cv) (param_grid ps cv))).
              fst item = ps ! k"
    by (auto simp: param_grid_block)
  have 2: "\<forall>iid gs. aggregate iid (length cv) out = Inr gs \<longrightarrow> map parameters gs = ps"
    using grid_loop_params [OF blocks, of 0] n starts by (auto simp: aggregate_def)
  have 3: "\<exists>gs. aggregate False (length cv) out = Inr gs"
    using grid_loop_not_iid [OF blocks, of 0 None] n starts by (simp add: aggregate_def)
  from 1 2 3 show ?thesis by blast
qed

theorem blocks_carry_one_setting_witness:
  "[([0::nat], [1::nat]), ([1], [0])] \<noteq> [] \<and>
   length [(1::real, 1::nat, 0::real, ''a''), (1, 1, 0, ''a''), (0, 1, 0, ''b''), (0, 1, 0, ''b'')]
     = length (param_grid [''a'', ''b''] [([0], [1]), ([1], [0])]) \<and>
   (\<exists>gs. aggregate False (length [([0::nat], [1::nat]), ([1], [0])])
         [(1::real, 1::nat, 0::real, ''a''), (1, 1, 0, ''a''), (0, 1, 0, ''b''), (0, 1, 0, ''b'')] = Inr gs \<and>
       map parameters gs = [''a'', ''b''])"
proof -
  have h3: "\<forall>idx < length [(1::real, 1::nat, 0::real, ''a''), (1, 1, 0, ''a''), (0, 1, 0, ''b''), (0, 1, 0, ''b'')].
          snd (snd (snd ([(1::real, 1::nat, 0::real, ''a''), (1, 1, 0, ''a''), (0, 1, 0, ''b''), (0, 1, 0, ''b'')] ! idx)))
          = fst (param_grid [''a'', ''b''] [([0], [1]), ([1], [0])] ! idx)"
    by (simp add: param_grid_def less_Suc_eq)
  have h2: "length [(1::real, 1::nat, 0::real, ''a''), (1, 1, 0, ''a''), (0, 1, 0, ''b''), (0, 1, 0, ''b'')]
     = length (param_grid [''a'', ''b''] [([0], [1]), ([1], [0])])"
    by (simp add: param_grid_def)
  have h1: "[([0::nat], [1::nat]), ([1], [0])] \<noteq> []" by simp
  show ?thesis
    using blocks_carry_one_setting [OF h1 h2 h3] h1 h2 by blast
qed

section \<open>Out-of-fold probabilities\<close>

lemma length_fold_update:
  "length (fold (\<lambda>(i, v) pv. pv[i := v]) ivs pv) = length (pv :: real list)"
  by (induction ivs arbitrary: pv) (auto simp: split_beta)

lemma fold_update_other:
  "i \<notin> fst ` set ivs \<Longrightarrow> fold (\<lambda>(i, v) pv. pv[i := v]) ivs pv ! i = (pv :: real list) ! i"
  by (induction ivs arbitrary: pv) (auto simp: split_beta)

lemma fold_update_hit:
  "distinct (map fst ivs) \<Longrightarrow> (i, v) \<in> set ivs \<Longrightarrow> i < length pv \<Longrightarrow>
   fold (\<lambda>(i, v) pv. pv[i := v]) ivs pv ! i = (v :: real)"
proof (induction ivs arbitrary: pv)
  case Nil
  then show ?case by simp
next
  case (Cons a ivs)
  obtain j w where a: "a = (j, w)" by (cases a)
  show ?case
  proof (cases "(i, v) = a")
    case True
    then have ij: "i = j" "v = w" by (simp_all add: a)
    have "i \<notin> fst ` set ivs" using Cons.prems(1) by (auto simp: a ij)
    then have "fold (\<lambda>(i, v) pv. pv[i := v]) ivs (pv[j := w]) ! i = pv[j := w] ! i"
      by (rule fold_update_other)
    then show ?thesis using Cons.prems(3) by (simp add: a ij)
  next
    case False
    then have "(i, v) \<in> set ivs" using Cons.prems(2) by simp
    then show ?thesis using Cons.IH [of "pv[j := w]"] Cons.prems by (simp add: a)
  qed
qed

lemma assign_rows_ok:
  assumes "\<forall>i \<in> set test. i < length pv"
  shows "assign_rows pv test (map g test) = Inr (fold (\<lambda>(i, v) pv. pv[i := v]) (zip test (map g test)) pv)"
  using assms by (simp add: assign_rows_def)

lemma cross_val_loop_result:
  assumes "length X = n" and "length y = n"
  shows "length pv = n \<Longrightarrow>
         \<forall>(train, test) \<in> set cv. (\<forall>i \<in> set train. i < n) \<and> (\<forall>i \<in> set test. i < n) \<Longrightarrow>
         \<exists>out. cross_val_loop est X y pv cv = Inr out \<and> length out = n \<and>
           (\<forall>i. (\<forall>(train, test) \<in> set cv. i \<notin> set test) \<longrightarrow> out ! i = pv ! i) \<and>
           (distinct (concat (map snd cv)) \<longrightarrow>
              (\<forall>(train, test) \<in> set cv. \<forall>i \<in> set test.
                 out ! i = est_predict_proba est
                             (est_fit est (map (\<lambda>i. X ! i) train) (map (\<lambda>i. y ! i) train))
                             (X ! i)))"
proof (induction cv arbitrary: pv)
  case Nil
  then show ?case by simp
next
  case (Cons f cv)
  obtain train test where f: "f = (train, test)" by (cases f)
  define g where "g = (\<lambda>i. est_predict_proba est
                       (est_fit est (map (\<lambda>i. X ! i) train) (map (\<lambda>i. y ! i) train)) (X ! i))"
  define pv' where "pv' = fold (\<lambda>(i, v) pv. pv[i := v]) (zip test (map g test)) pv"
  have tr: "\<forall>i \<in> set train. i < n" and te: "\<forall>i \<in> set test. i < n"
    using Cons.prems(2) by (auto simp: f)
  have rest: "\<forall>(train, test) \<in> set cv. (\<forall>i \<in> set train. i < n) \<and> (\<forall>i \<in> set test. i < n)"
    using Cons.prems(2) by simp
  have len': "length pv' = n" using Cons.prems(1) by (simp add: pv'_def length_fold_update)
  have step: "cross_val_loop est X y pv (f # cv) = cross_val_loop est X y pv' cv"
    using tr te assms Cons.prems(1)
    by (simp add: f take_rows_def assign_rows_def pv'_def g_def comp_def)
  from Cons.IH [OF len' rest] obtain out where
    out: "cross_val_loop est X y pv' cv = Inr out" "length out = n"
    and keep: "\<forall>i. (\<forall>(train, test) \<in> set cv. i \<notin> set test) \<longrightarrow> out ! i = pv' ! i"
    and fit: "distinct (concat (map snd cv)) \<longrightarrow>
              (\<forall>(train, test) \<in> set cv. \<forall>i \<in> set test.
                 out ! i = est_predict_proba est
                             (est_fit est (map (\<lambda>i. X ! i) train) (map (\<lambda>i. y ! i) train))
                             (X ! i))"
    by blast
  have fst_zip: "map fst (zip test (map g test)) = test" by (simp add: map_fst_zip)
  have a: "\<forall>i. (\<forall>(train, test) \<in> set (f # cv). i \<notin> set test) \<longrightarrow> out ! i = pv ! i"
  proof (intro allI impI)
    fix i assume h: "\<forall>(train, test) \<in> set (f # cv). i \<notin> set test"
    then have "i \<notin> set test" and "\<forall>(train, test) \<in> set cv. i \<notin> set test" by (auto simp: f)
    then have "out ! i = pv' ! i" and "i \<notin> fst ` set (zip test (map g test))"
      using keep fst_zip by (auto simp: set_map [symmetric] simp del: set_map)
    then show "out ! i = pv ! i" by (simp add: pv'_def fold_update_other)
  qed
  have b: "distinct (concat (map snd (f # cv))) \<longrightarrow>
              (\<forall>(train, test) \<in> set (f # cv). \<forall>i \<in> set test.
                 out ! i = est_predict_proba est
                             (est_fit est (map (\<lambda>i. X ! i) train) (map (\<lambda>i. y ! i) train))
                             (X ! i))"
  proof (intro impI)
    assume d: "distinct (concat (map snd (f # cv)))"
    then have dt: "distinct test" and dr: "distinct (concat (map snd cv))"
      and disj: "set test \<inter> set (concat (map snd cv)) = {}"
      by (auto simp: f)
    have head: "\<forall>i \<in> set test. out ! i = g i"
    proof
      fix i assume i: "i \<in> set test"
      then have "i \<notin> set (concat (map snd cv))" using disj by blast
      then have "\<forall>(train, test) \<in> set cv. i \<notin> set test" by force
      then have "out ! i = pv' ! i" using keep by blast
      moreover have "(i, g i) \<in> set (zip test (map g test))"
        using i by (auto simp: zip_map2 zip_same_conv_map)
      moreover have "i < length pv" using i te Cons.prems(1) by simp
      ultimately show "out ! i = g i"
        using fold_update_hit [of "zip test (map g test)" i "g i" pv] dt fst_zip
        by (simp add: pv'_def)
    qed
    show "\<forall>(train, test) \<in> set (f # cv). \<forall>i \<in> set test.
                 out ! i = est_predict_proba est
                             (est_fit est (map (\<lambda>i. X ! i) train) (map (\<lambda>i. y ! i) train))
                             (X ! i)"
      using head fit dr by (auto simp: f g_def)
  qed
  show ?case using step out a b by simp
qed

text \<open>
  Claim C8, as the code has it. For folds with train indices in range whose test lists
  form an exact partition of the sample indices, \<^verbatim>\<open>cross_val_probs\<close> returns one
  probability per label, and the probability at each index of a fold's test list is the
  prediction, for that sample, of the model fitted on the rows and labels of that fold's
  train indices. The sample is absent from these when the fold's train and test lists are
  disjoint, which \<^verbatim>\<open>cross_val_probs\<close> does not check.
\<close>

theorem cross_val_probs_fold_models:
  assumes "length X = length y"
    and "mset (concat (map snd cv)) = mset [0..<length y]"
    and "\<forall>(train, test) \<in> set cv. \<forall>i \<in> set train. i < length y"
  shows "\<exists>out. cross_val_probs est X y cv = Inr out \<and> length out = length y \<and>
           (\<forall>(train, test) \<in> set cv. \<forall>i \<in> set test.
              out ! i = est_predict_proba est
                          (est_fit est (map (\<lambda>i. X ! i) train) (map (\<lambda>i. y ! i) train))
                          (X ! i) \<and>
              (set train \<inter> set test = {} \<longrightarrow> i \<notin> set train))"
proof -
  have d: "distinct (concat (map snd cv))"
    using assms(2) by (metis distinct_upt mset_eq_imp_distinct_iff)
  have s: "set (concat (map snd cv)) = {0..<length y}"
    using assms(2) by (metis mset_eq_setD set_upt)
  have r: "\<forall>(train, test) \<in> set cv. (\<forall>i \<in> set train. i < length y) \<and> (\<forall>i \<in> set test. i < length y)"
  proof (clarify, intro conjI ballI)
    fix train test i assume f: "(train, test) \<in> set cv"
    { assume "i \<in> set train" then show "i < length y" using assms(3) f by blast }
    { assume "i \<in> set test"
      then have "i \<in> set (concat (map snd cv))" using f by force
      then have "i \<in> {0..<length y}" by (simp only: s)
      then show "i < length y" by simp }
  qed
  from cross_val_loop_result [OF assms(1) refl _ r, of "replicate (length y) 0" est]
  obtain out where "cross_val_probs est X y cv = Inr out" "length out = length y"
    "\<forall>(train, test) \<in> set cv. \<forall>i \<in> set test.
                 out ! i = est_predict_proba est
                             (est_fit est (map (\<lambda>i. X ! i) train) (map (\<lambda>i. y ! i) train))
                             (X ! i)"
    using d by (auto simp: cross_val_probs_def)
  moreover have "\<forall>(train, test) \<in> set cv. \<forall>i \<in> set test.
                   set train \<inter> set test = {} \<longrightarrow> i \<notin> set train"
    by blast
  ultimately show ?thesis by blast
qed

theorem cross_val_probs_fold_models_witness:
  "length [1/10, 9/10 :: real] = length [0, 1 :: int] \<and>
   mset (concat (map snd [([1::nat], [0::nat]), ([0], [1])])) = mset [0..<length [0, 1 :: int]] \<and>
   (\<exists>out. cross_val_probs (toy_svc ()) [1/10, 9/10] [0, 1] [([1], [0]), ([0], [1])] = Inr out \<and>
          length out = length [0, 1 :: int] \<and> out ! 0 = 1/10 \<and> out ! 1 = 9/10)"
proof -
  have h1: "length [1/10, 9/10 :: real] = length [0, 1 :: int]" by simp
  have h2: "mset (concat (map snd [([1::nat], [0::nat]), ([0], [1])])) = mset [0..<length [0, 1 :: int]]"
    by (simp add: upt_rec)
  have h3: "\<forall>(train, test) \<in> set [([1::nat], [0::nat]), ([0], [1])].
              \<forall>i \<in> set train. i < length [0, 1 :: int]"
    by simp
  from cross_val_probs_fold_models [OF h1 h2 h3, of "toy_svc ()"] obtain out where
    o: "cross_val_probs (toy_svc ()) [1/10, 9/10] [0, 1] [([1], [0]), ([0], [1])] = Inr out"
       "length out = length [0, 1 :: int]"
    and p: "\<forall>(train, test) \<in> set [([1::nat], [0::nat]), ([0], [1])]. \<forall>i \<in> set test.
              out ! i = est_predict_proba (toy_svc ())
                          (est_fit (toy_svc ()) (map (\<lambda>i. [1/10, 9/10] ! i) train) (map (\<lambda>i. [0, 1] ! i) train))
                          ([1/10, 9/10] ! i) \<and>
              (set train \<inter> set test = {} \<longrightarrow> i \<notin> set train)"
    by blast
  from p have "out ! 0 = 1/10" "out ! 1 = 9/10" by (simp_all add: toy_svc_def)
  with o h1 h2 show ?thesis by blast
qed

text \<open>
  Claim C8, counterexample. The test lists of the two folds \<open>([0, 1], [0])\<close> and
  \<open>([0, 1], [1])\<close> form an exact partition of the indices of two samples, and both train
  lists hold both samples. With the classifier that remembers its training rows, the
  probability returned for each sample is its own label, the prediction of a model
  fitted on that sample; fitted without the first sample, the model gives it one half.
\<close>

theorem cross_val_probs_train_holds_sample:
  "mset (concat (map snd [([0, 1], [0]), ([0, 1], [1])])) = mset [0..<length [0, 1 :: int]] \<and>
   cross_val_probs memo_svc [1/10, 9/10] [0, 1] [([0, 1], [0]), ([0, 1], [1])] = Inr [0, 1] \<and>
   est_predict_proba memo_svc
     (est_fit memo_svc (map (\<lambda>i. [1/10, 9/10] ! i) [0, 1]) (map (\<lambda>i. [0, 1] ! i) [0, 1]))
     ([1/10, 9/10] ! 0) = 0 \<and>
   (0::nat) \<in> set [0, 1] \<and>
   est_predict_proba memo_svc (est_fit memo_svc [9/10] [1]) (1/10) = 1/2"
  by (simp add: cross_val_probs_def take_rows_def assign_rows_def memo_svc_def upt_rec)

text \<open>
  Claim C10. The output vector starts as zeros, so for folds with indices in range the
  call returns without an error and the probability at every sample index that no test
  list covers is exactly zero.
\<close>

theorem cross_val_probs_uncovered_zero:
  assumes "length X = length y"
    and "\<forall>(train, test) \<in> set cv. (\<forall>j \<in> set train. j < length y) \<and> (\<forall>j \<in> set test. j < length y)"
    and "i < length y"
    and "\<forall>(train, test) \<in> set cv. i \<notin> set test"
  shows "\<exists>out. cross_val_probs est X y cv = Inr out \<and> length out = length y \<and> out ! i = 0"
proof -
  from cross_val_loop_result [OF assms(1) refl _ assms(2), of "replicate (length y) 0" est]
  obtain out where "cross_val_probs est X y cv = Inr out" "length out = length y"
    "\<forall>i. (\<forall>(train, test) \<in> set cv. i \<notin> set test) \<longrightarrow> out ! i = replicate (length y) 0 ! i"
    by (auto simp: cross_val_probs_def)
  then show ?thesis using assms(3,4) by auto
qed

theorem cross_val_probs_uncovered_zero_witness:
  "length [1/10, 9/10, 1/2 :: real] = length [0, 1, 1 :: int] \<and>
   (2::nat) < length [0, 1, 1 :: int] \<and>
   (\<exists>out. cross_val_probs (toy_svc ()) [1/10, 9/10, 1/2] [0, 1, 1] [([1], [0]), ([0], [1])] = Inr out \<and>
          length out = length [0, 1, 1 :: int] \<and> out ! 2 = 0)"
proof -
  have h1: "length [1/10, 9/10, 1/2 :: real] = length [0, 1, 1 :: int]" by simp
  have h2: "\<forall>(train, test) \<in> set [([1::nat], [0::nat]), ([0], [1])].
              (\<forall>j \<in> set train. j < length [0, 1, 1 :: int]) \<and> (\<forall>j \<in> set test. j < length [0, 1, 1 :: int])"
    by simp
  have h3: "(2::nat) < length [0, 1, 1 :: int]" by simp
  have h4: "\<forall>(train, test) \<in> set [([1::nat], [0::nat]), ([0], [1])]. (2::nat) \<notin> set test" by simp
  show ?thesis
    using cross_val_probs_uncovered_zero [OF h1 h2 h3 h4, of "toy_svc ()"] h1 h3 by blast
qed

section \<open>The scorer of the search and the selected scorer\<close>

lemma collect_Inr: "collect rs = Inr xs \<Longrightarrow> rs = map Inr xs"
proof (induction rs arbitrary: xs)
  case Nil
  then show ?case by simp
next
  case (Cons r rs)
  then show ?case
    by (cases r) (auto split: sum.splits)
qed

lemma local_fit_collected:
  assumes "collect (map (local_fit fas e X y s) (indexed_param_grid pg)) = Inr collected"
  shows "\<exists>results. collected = zip [0..<length results] results \<and>
           length results = length pg \<and>
           map Inr results = map (\<lambda>(p, train, test). fas e X y s train test p) pg"
proof -
  have m: "map (local_fit fas e X y s) (zip [0..<length pg] pg) = map Inr collected"
    using collect_Inr [OF assms] by (simp add: indexed_param_grid_def)
  then have len: "length collected = length pg"
    by (metis length_map length_zip length_upt min.idem minus_nat.diff_0)
  have pt: "fst (collected ! k) = k \<and>
            (\<lambda>(p, train, test). fas e X y s train test p) (pg ! k) = Inr (snd (collected ! k))"
    if k: "k < length pg" for k
  proof -
    have "map (local_fit fas e X y s) (zip [0..<length pg] pg) ! k = map Inr collected ! k"
      by (simp only: m)
    then have "local_fit fas e X y s (k, pg ! k) = Inr (collected ! k)"
      using k len by simp
    then show ?thesis
      by (cases "pg ! k"; cases "collected ! k") (auto simp: local_fit_def split: sum.splits)
  qed
  have 1: "collected = zip [0..<length (map snd collected)] (map snd collected)"
    by (rule nth_equalityI) (simp_all add: len pt prod_eq_iff)
  have 2: "map Inr (map snd collected) = map (\<lambda>(p, train, test). fas e X y s train test p) pg"
    by (rule nth_equalityI) (simp_all add: len pt)
  show ?thesis using 1 2 len by (intro exI [of _ "map snd collected"]) simp
qed

lemma fit_out:
  assumes "GridSearchCVSparkParallel_fit check_scoring fas e scoring iid ps cv X y = Inr (out, gs, b)"
  shows "map Inr out =
         map (\<lambda>(p, train, test). fas e X y (check_scoring e scoring) train test p) (param_grid ps cv)"
proof -
  define pg where "pg = param_grid ps cv"
  from assms obtain collected where
    c: "collect (map (local_fit fas e X y (check_scoring e scoring)) (indexed_param_grid pg)) = Inr collected"
    and f: "fit_collected iid (length cv) (length pg) collected = Inr (out, gs, b)"
    by (auto simp: GridSearchCVSparkParallel_fit_def Let_def pg_def split: if_splits sum.splits)
  from local_fit_collected [OF c] obtain results where
    r: "collected = zip [0..<length results] results" "length results = length pg"
       "map Inr results = map (\<lambda>(p, train, test). fas e X y (check_scoring e scoring) train test p) pg"
    by blast
  have "reassemble collected (length pg) = Inr results"
    using reassemble_permutation [of collected results] r(1,2) by simp
  with f have "out = results"
    by (auto simp: fit_collected_def split: sum.splits)
  with r(3) show ?thesis by (simp add: pg_def)
qed

text \<open>
  Claim C2, as the code has it. Whenever the main program returns, the result of every
  work item of the search is the result of \<^verbatim>\<open>_fit_and_score\<close> under the scorer
  \<^verbatim>\<open>check_scoring(estimator, scoring=None)\<close>, whichever scorer the command line
  selects; the selected scorer is applied once, after the search, to the out-of-fold
  probabilities of the whole dataset.
\<close>

theorem search_scores_come_from_check_scoring:
  assumes "cstress_main check_scoring fas argsort prc svc args_scorer ps X y lkf =
             Inr ((out, gs, b), oc)"
  shows "map Inr out =
           map (\<lambda>(p, train, test). fas svc X y (check_scoring svc None) train test p)
               (param_grid ps lkf) \<and>
         (\<exists>CV_probs. cross_val_probs (svc (parameters b)) X y lkf = Inr CV_probs \<and>
                     final_step (main_scorer argsort prc args_scorer) CV_probs y = Inr oc)"
proof -
  from assms obtain CV_probs where
    f: "GridSearchCVSparkParallel_fit check_scoring fas svc None False ps lkf X y = Inr (out, gs, b)"
    and c: "cross_val_probs (svc (parameters b)) X y lkf = Inr CV_probs"
    and s: "final_step (main_scorer argsort prc args_scorer) CV_probs y = Inr oc"
    by (auto simp: cstress_main_def Let_def split: sum.splits)
  from fit_out [OF f] c s show ?thesis by blast
qed

text \<open>
  A run of the main program with the library's behaviour for \<^verbatim>\<open>check_scoring\<close>,
  \<^verbatim>\<open>_fit_and_score\<close> and \<^verbatim>\<open>np.argsort\<close>, on four samples of distinct probabilities in two
  folds with the scorer \<^verbatim>\<open>twobias\<close>.
\<close>

lemmas scorer_defs = two_bias_scorer_CV_def two_bias_trace_def two_bias_scan_def sorted_db_def
  insertion_argsort_def take_rows_def ratio_test_def np_divide_def ge_095_def

lemma toy_item_0:
  "sk_fit_and_score toy_svc [1/10, 9/10, 1/5, 4/5] [0, 1, 0, 1] (sk_check_scoring toy_svc None) [0, Suc 0] [2, 3] ()
   = Inr (1, 2, 0, ())"
  by (simp add: sk_fit_and_score_def sk_check_scoring_def take_rows_def toy_svc_def accuracy_def)

lemma toy_item_1:
  "sk_fit_and_score toy_svc [1/10, 9/10, 1/5, 4/5] [0, 1, 0, 1] (sk_check_scoring toy_svc None) [2, 3] [0, Suc 0] ()
   = Inr (1, 2, 0, ())"
  by (simp add: sk_fit_and_score_def sk_check_scoring_def take_rows_def toy_svc_def accuracy_def)

lemma toy_pg: "indexed_param_grid (param_grid [()] [([0, Suc 0], [2, 3]), ([2, 3], [0, Suc 0])])
   = [(0, ((), [0, Suc 0], [2, 3])), (Suc 0, ((), [2, 3], [0, Suc 0]))]"
  by (simp add: param_grid_def indexed_param_grid_def upt_rec)

lemma toy_collected:
  "collect (map (local_fit sk_fit_and_score toy_svc [1/10, 9/10, 1/5, 4/5] [0, 1, 0, 1] (sk_check_scoring toy_svc None))
      (indexed_param_grid (param_grid [()] [([0, Suc 0], [2, 3]), ([2, 3], [0, Suc 0])])))
   = Inr [(0, (1, 2, 0, ())), (Suc 0, (1, 2, 0, ()))]"
  by (simp add: toy_pg local_fit_def toy_item_0 toy_item_1)

lemma toy_fit_collected:
  "fit_collected False 2 2 [(0, (1, 2, 0, ())), (1, (1, 2, 0, ()))]
   = Inr ([(1, 2, 0, ()), (1, 2, 0, ())],
        [\<lparr>parameters = (), mean_validation_score = 1, cv_validation_scores = [1, 1]\<rparr>],
        \<lparr>parameters = (), mean_validation_score = 1, cv_validation_scores = [1, 1]\<rparr>)"
  by (simp add: fit_collected_def reassemble_def dict_def aggregate_def grid_starts_def
      block_loop_def block_step_def block_score_def best_def sorted_reverse_def upt_rec)

lemma toy_collected_num:
  "collect (map (local_fit sk_fit_and_score toy_svc [1/10, 9/10, 1/5, 4/5] [0, 1, 0, 1] (sk_check_scoring toy_svc None))
      (indexed_param_grid (param_grid [()] [([0, 1], [2, 3]), ([2, 3], [0, 1])])))
   = Inr [(0, (1, 2, 0, ())), (1, (1, 2, 0, ()))]"
  using toy_collected by simp

lemma toy_fit:
  "GridSearchCVSparkParallel_fit sk_check_scoring sk_fit_and_score toy_svc None False [()]
     [([0, 1], [2, 3]), ([2, 3], [0, 1])] [1/10, 9/10, 1/5, 4/5] [0, 1, 0, 1]
   = Inr ([(1, 2, 0, ()), (1, 2, 0, ())],
        [\<lparr>parameters = (), mean_validation_score = 1, cv_validation_scores = [1, 1]\<rparr>],
        \<lparr>parameters = (), mean_validation_score = 1, cv_validation_scores = [1, 1]\<rparr>)"
proof -
  have l: "length (param_grid [()] [([0::nat, 1], [2::nat, 3]), ([2, 3], [0, 1])]) = 2"
    by (simp add: param_grid_def)
  have c: "length [([0::nat, 1], [2::nat, 3]), ([2, 3], [0, 1])] = 2" by simp
  have e: "length [0, 1, 0, 1 :: int] = length [1/10, 9/10, 1/5, 4/5 :: real]" by simp
  show ?thesis
    unfolding GridSearchCVSparkParallel_fit_def Let_def toy_collected_num l c
    by (simp only: e toy_fit_collected sum.case if_False not_True_eq_False simp_thms)
qed

lemma toy_cv_probs:
  "cross_val_probs (toy_svc ()) [1/10, 9/10, 1/5, 4/5] [0, 1, 0, 1] [([0, 1], [2, 3]), ([2, 3], [0, 1])]
   = Inr [1/10, 9/10, 1/5, 4/5]"
  by (simp add: cross_val_probs_def take_rows_def assign_rows_def toy_svc_def)

lemma toy_two_bias:
  "two_bias_scorer_CV insertion_argsort [1/10, 9/10, 1/5, 4/5] [0, 1, 0, 1] True
   = Inr (ScoreBias (- (1/4)) (Thresholds [1/5, 1/5]))"
  by (simp add: scorer_defs)

lemma toy_final: "final_step (main_scorer insertion_argsort (\<lambda>y probs. Inl ValueError) ''twobias'') [1/10, 9/10, 1/5, 4/5] [0, 1, 0, 1]
        = Inr (ModelSaved (- (1/4)) (Thresholds [1/5, 1/5]))"
    by (simp add: final_step_def main_scorer_def toy_two_bias report_def)

lemma toy_main:
  "cstress_main sk_check_scoring sk_fit_and_score insertion_argsort
     (\<lambda>y probs. Inl ValueError) toy_svc ''twobias'' [()]
     [1/10, 9/10, 1/5, 4/5] [0, 1, 0, 1] [([0, 1], [2, 3]), ([2, 3], [0, 1])]
   = Inr (([(1, 2, 0, ()), (1, 2, 0, ())],
        [\<lparr>parameters = (), mean_validation_score = 1, cv_validation_scores = [1, 1]\<rparr>],
        \<lparr>parameters = (), mean_validation_score = 1, cv_validation_scores = [1, 1]\<rparr>),
       ModelSaved (- (1/4)) (Thresholds [1/5, 1/5]))"
  unfolding cstress_main_def Let_def toy_fit
  by (simp only: sum.case snd_conv CVScoreTuple.simps toy_cv_probs toy_final)

text \<open>
  Claim C2, counterexample. In this run the selected scorer is the two-bias scorer. The
  first work item has the test rows 2 and 3; the search gives it the score 1, the
  accuracy of the classifier, while the two-bias scorer gives the test predictions
  \<open>[1/5, 4/5]\<close> of that fold with the labels \<open>[0, 1]\<close> the score \<open>-1\<close>.
\<close>

theorem search_score_differs_from_selected_scorer:
  "cstress_main sk_check_scoring sk_fit_and_score insertion_argsort
     (\<lambda>y probs. Inl ValueError) toy_svc ''twobias'' [()]
     [1/10, 9/10, 1/5, 4/5] [0, 1, 0, 1] [([0, 1], [2, 3]), ([2, 3], [0, 1])]
   = Inr (([(1, 2, 0, ()), (1, 2, 0, ())],
        [\<lparr>parameters = (), mean_validation_score = 1, cv_validation_scores = [1, 1]\<rparr>],
        \<lparr>parameters = (), mean_validation_score = 1, cv_validation_scores = [1, 1]\<rparr>),
       ModelSaved (- (1/4)) (Thresholds [1/5, 1/5])) \<and>
   map (est_predict_proba (toy_svc ()) (est_fit (toy_svc ()) [1/10, 9/10] [0, 1])) [1/5, 4/5]
     = [1/5, 4/5] \<and>
   main_scorer insertion_argsort (\<lambda>y probs. Inl ValueError) ''twobias'' [1/5, 4/5] [0, 1] False = Inr (Score (- 1))"
  using toy_main by (simp add: toy_svc_def main_scorer_def scorer_defs)

theorem search_scores_come_from_check_scoring_witness:
  "cstress_main sk_check_scoring sk_fit_and_score insertion_argsort
     (\<lambda>y probs. Inl ValueError) toy_svc ''twobias'' [()]
     [1/10, 9/10, 1/5, 4/5] [0, 1, 0, 1] [([0, 1], [2, 3]), ([2, 3], [0, 1])]
   = Inr (([(1, 2, 0, ()), (1, 2, 0, ())],
        [\<lparr>parameters = (), mean_validation_score = 1, cv_validation_scores = [1, 1]\<rparr>],
        \<lparr>parameters = (), mean_validation_score = 1, cv_validation_scores = [1, 1]\<rparr>),
       ModelSaved (- (1/4)) (Thresholds [1/5, 1/5])) \<and>
   map Inr [(1, 2, 0, ()), (1, 2, 0, ())] =
     map (\<lambda>(p, train, test). sk_fit_and_score toy_svc [1/10, 9/10, 1/5, 4/5] [0, 1, 0, 1]
                                (sk_check_scoring toy_svc None) train test p)
         (param_grid [()] [([0, 1], [2, 3]), ([2, 3], [0, 1])]) \<and>
   (\<exists>CV_probs. cross_val_probs (toy_svc ()) [1/10, 9/10, 1/5, 4/5] [0, 1, 0, 1]
                  [([0, 1], [2, 3]), ([2, 3], [0, 1])] = Inr CV_probs \<and>
        final_step (main_scorer insertion_argsort (\<lambda>y probs. Inl ValueError) ''twobias'') CV_probs [0, 1, 0, 1]
          = Inr (ModelSaved (- (1/4)) (Thresholds [1/5, 1/5])))"
  using search_scores_come_from_check_scoring [OF toy_main] toy_main by simp

section \<open>The two-bias scorer\<close>

lemma count_pos_append: "count_pos (xs @ ys) = count_pos xs + count_pos ys"
  by (simp add: count_pos_def)

lemma count_neg_append: "count_neg (xs @ ys) = count_neg xs + count_neg ys"
  by (simp add: count_neg_def)

lemma count_pos_Cons: "count_pos ((v, l) # xs) = (if l = 1 then 1 else 0) + count_pos xs"
  by (simp add: count_pos_def)

lemma count_neg_Cons: "count_neg ((v, l) # xs) = (if l = 1 then 0 else 1) + count_neg xs"
  by (simp add: count_neg_def)

lemma count_pos_Nil: "count_pos [] = 0"
  by (simp add: count_pos_def)

lemma count_neg_Nil: "count_neg [] = 0"
  by (simp add: count_neg_def)

lemma count_pos_neg: "count_pos xs + count_neg xs = length xs"
  by (induction xs) (auto simp: count_pos_def count_neg_def)

lemma ge_095_ratio:
  "ge_095 (np_divide (int a) (int b)) = (b \<noteq> 0 \<and> a \<noteq> 0 \<and> 19 / 20 \<le> real a / real b \<or> b = 0 \<and> a \<noteq> 0)"
  by (auto simp: np_divide_def ge_095_def)

lemma ratio_test_counts:
  assumes "a \<le> b" and "c \<le> d"
  shows "fst (ratio_test (int a) (int b) (int c) (int d)) =
         (b \<noteq> 0 \<and> d \<noteq> 0 \<and> 19 / 20 \<le> real a / real b \<and> 19 / 20 \<le> real c / real d)"
  using assms by (auto simp: ratio_test_def np_divide_def ge_095_def)

lemma feasible_parts:
  assumes "db = low @ mid @ high" and "length low = Suc i" and "Suc j = length low + length mid"
  shows "feasible db i j =
         (count_pos low + count_pos high \<noteq> 0 \<and> count_neg low + count_neg high \<noteq> 0 \<and>
          19 / 20 \<le> real (count_pos high) / real (count_pos low + count_pos high) \<and>
          19 / 20 \<le> real (count_neg low) / real (count_neg low + count_neg high))"
proof -
  have "take (Suc i) db = low" using assms(1,2) by simp
  moreover have "drop (Suc j) db = high" using assms by simp
  ultimately show ?thesis by (simp add: feasible_def Let_def)
qed

lemma inner_loop_keeps_counts:
  "tp (inner_loop n i v j rows a b c d st) = tp st \<and> tn (inner_loop n i v j rows a b c d st) = tn st"
proof (induction rows arbitrary: j a b c st)
  case Nil
  then show ?case by simp
next
  case (Cons r rows)
  obtain w l where r: "r = (w, l)" by (cases r)
  show ?case
    by (simp add: r Let_def Cons.IH split: prod.split)
qed

lemma inner_loop_infeasible:
  assumes "length low = Suc i"
    and "\<forall>j'. i < j' \<and> j' < length db \<longrightarrow> \<not> feasible db i j'"
  shows "db = low @ mid @ rows \<Longrightarrow> j = length low + length mid \<Longrightarrow>
         running_tp = int (count_pos rows) \<Longrightarrow>
         running_pos = int (count_pos low + count_pos rows) \<Longrightarrow>
         running_neg = int (count_neg low + count_neg rows) \<Longrightarrow>
         minloss (inner_loop n i v j rows running_tp running_pos running_neg
                    (int (count_neg low)) st) = minloss st \<and>
         optbias (inner_loop n i v j rows running_tp running_pos running_neg
                    (int (count_neg low)) st) = optbias st"
proof (induction rows arbitrary: mid j running_tp running_pos running_neg st)
  case Nil
  then show ?case by simp
next
  case (Cons r rows)
  obtain w l where r: "r = (w, l)" by (cases r)
  define rtp where "rtp = (if l = 1 then running_tp - 1 else running_tp)"
  define rpos where "rpos = (if l = 1 then running_pos - 1 else running_pos)"
  define rneg where "rneg = (if l = 1 then running_neg else running_neg - 1)"
  have rtp: "rtp = int (count_pos rows)"
    using Cons.prems(3) by (simp add: rtp_def r count_pos_Cons)
  have rpos: "rpos = int (count_pos low + count_pos rows)"
    using Cons.prems(4) by (simp add: rpos_def r count_pos_Cons)
  have rneg: "rneg = int (count_neg low + count_neg rows)"
    using Cons.prems(5) by (simp add: rneg_def r count_neg_Cons)
  have db: "db = low @ (mid @ [r]) @ rows" using Cons.prems(1) by simp
  have j: "Suc j = length low + length (mid @ [r])" using Cons.prems(2) by simp
  have "i < j" using Cons.prems(2) assms(1) by simp
  moreover have "j < length db" using Cons.prems(1,2) by simp
  ultimately have nf: "\<not> feasible db i j" using assms(2) by blast
  have ok: "\<not> (rpos \<noteq> 0 \<and> rneg \<noteq> 0 \<and> fst (ratio_test rtp rpos (int (count_neg low)) rneg))"
  proof
    assume h: "rpos \<noteq> 0 \<and> rneg \<noteq> 0 \<and> fst (ratio_test rtp rpos (int (count_neg low)) rneg)"
    have le1: "count_pos rows \<le> count_pos low + count_pos rows"
      and le2: "count_neg low \<le> count_neg low + count_neg rows" by simp_all
    have "fst (ratio_test (int (count_pos rows)) (int (count_pos low + count_pos rows))
             (int (count_neg low)) (int (count_neg low + count_neg rows)))"
      using h unfolding rtp rpos rneg by blast
    then have "feasible db i j"
      unfolding ratio_test_counts [OF le1 le2] feasible_parts [OF db assms(1) j] by blast
    with nf show False by simp
  qed
  show ?case
  proof (cases "rpos = 0 \<or> rneg = 0")
    case True
    then show ?thesis
      by (simp add: r Let_def rtp_def [symmetric] rpos_def [symmetric] rneg_def [symmetric])
  next
    case False
    with ok have nok: "\<not> fst (ratio_test rtp rpos (int (count_neg low)) rneg)" by simp
    obtain z where z: "ratio_test rtp rpos (int (count_neg low)) rneg = (False, z)"
      using nok by (cases "ratio_test rtp rpos (int (count_neg low)) rneg") auto
    have step: "inner_loop n i v j (r # rows) running_tp running_pos running_neg (int (count_neg low)) st
        = inner_loop n i v (Suc j) rows rtp rpos rneg (int (count_neg low))
            (st\<lparr>zero_divisions := zero_divisions st + z\<rparr>)"
      using False z
      by (simp add: r Let_def rtp_def [symmetric] rpos_def [symmetric] rneg_def [symmetric])
    have j': "Suc j = length low + length (mid @ [r])" using j .
    show ?thesis
      unfolding step
      using Cons.IH [OF db j' rtp rpos rneg, of "st\<lparr>zero_divisions := zero_divisions st + z\<rparr>"]
      by simp
  qed
qed

lemma outer_loop_infeasible:
  assumes "n = length db" and "pos = int (count_pos db)" and "neg = int (count_neg db)"
    and "\<forall>i j. i \<le> j \<and> j < length db \<longrightarrow> \<not> feasible db i j"
  shows "db = pre @ rows \<Longrightarrow> i = length pre \<Longrightarrow>
         tp st = int (count_pos rows) \<Longrightarrow> tn st = int (count_neg pre) \<Longrightarrow>
         minloss (outer_loop n pos neg i rows st) = minloss st \<and>
         optbias (outer_loop n pos neg i rows st) = optbias st"
proof (induction rows arbitrary: pre i st)
  case Nil
  then show ?case by simp
next
  case (Cons r rows)
  obtain w l where r: "r = (w, l)" by (cases r)
  define tp' where "tp' = (if l = 1 then tp st - 1 else tp st)"
  define tn' where "tn' = (if l = 1 then tn st else tn st + 1)"
  define low where "low = pre @ [r]"
  have tp': "tp' = int (count_pos rows)"
    using Cons.prems(3) by (simp add: tp'_def r count_pos_Cons)
  have tn': "tn' = int (count_neg low)"
    using Cons.prems(4) by (simp add: tn'_def r low_def count_neg_Cons count_neg_append count_neg_Nil)
  have db: "db = low @ [] @ rows" using Cons.prems(1) by (simp add: low_def)
  have len: "length low = Suc i" using Cons.prems(2) by (simp add: low_def)
  have pos: "pos = int (count_pos low + count_pos rows)"
    using assms(2) db by (simp add: count_pos_append)
  have neg: "neg = int (count_neg low + count_neg rows)"
    using assms(3) db by (simp add: count_neg_append)
  have "i < length db" using Cons.prems(1,2) by simp
  then have nf: "\<not> feasible db i i" using assms(4) by blast
  have nok: "\<not> fst (ratio_test tp' pos tn' neg)"
  proof
    assume h: "fst (ratio_test tp' pos tn' neg)"
    have le1: "count_pos rows \<le> count_pos low + count_pos rows"
      and le2: "count_neg low \<le> count_neg low + count_neg rows" by simp_all
    have s: "Suc i = length low + length ([] :: (real \<times> int) list)" using len by simp
    have "feasible db i i"
      using h unfolding tp' tn' pos neg ratio_test_counts [OF le1 le2] feasible_parts [OF db len s]
      by blast
    with nf show False by simp
  qed
  obtain z where z: "ratio_test tp' pos tn' neg = (False, z)"
    using nok by (cases "ratio_test tp' pos tn' neg") auto
  define st1 where "st1 = st\<lparr>tp := tp', tn := tn', zero_divisions := zero_divisions st + z\<rparr>"
  define st2 where "st2 = inner_loop n i w (Suc i) rows tp' pos neg tn' st1"
  have step: "outer_loop n pos neg i (r # rows) st = outer_loop n pos neg (Suc i) rows st2"
    using z by (simp add: r Let_def tp'_def [symmetric] tn'_def [symmetric] st1_def st2_def)
  have inf: "\<forall>j'. i < j' \<and> j' < length db \<longrightarrow> \<not> feasible db i j'"
    using assms(4) by simp
  have keep: "minloss st2 = minloss st1 \<and> optbias st2 = optbias st1"
    unfolding st2_def tn'
    by (rule inner_loop_infeasible [OF len inf db _ tp' pos neg]) (simp add: len)
  have cnt: "tp st2 = tp st1 \<and> tn st2 = tn st1"
    unfolding st2_def by (rule inner_loop_keeps_counts)
  have db2: "db = low @ rows" using db by simp
  have "minloss (outer_loop n pos neg (Suc i) rows st2) = minloss st2 \<and>
        optbias (outer_loop n pos neg (Suc i) rows st2) = optbias st2"
    by (rule Cons.IH [OF db2]) (simp_all add: len cnt st1_def tp' tn')
  then show ?case unfolding step using keep by (simp add: st1_def)
qed

lemma count_pos_mset: "mset xs = mset ys \<Longrightarrow> count_pos xs = count_pos ys"
  unfolding count_pos_def by (metis mset_filter size_mset)

lemma count_pos_zip:
  "length probs = length y \<Longrightarrow> count_pos (zip probs y) = length (filter (\<lambda>label. label = 1) y)"
  by (induction probs y rule: list_induct2) (simp_all add: count_pos_def)

lemma mset_rows:
  assumes "mset idx = mset [0..<length xs]"
  shows "mset (map (\<lambda>i. xs ! i) idx) = mset xs"
proof -
  have "mset (map (\<lambda>i. xs ! i) idx) = image_mset (\<lambda>i. xs ! i) (mset idx)" by simp
  also have "\<dots> = image_mset (\<lambda>i. xs ! i) (mset [0..<length xs])" by (simp only: assms)
  also have "\<dots> = mset (map (\<lambda>i. xs ! i) [0..<length xs])" by simp
  also have "\<dots> = mset xs" by (simp only: map_nth)
  finally show ?thesis .
qed

lemma two_bias_scan_infeasible:
  assumes "length db = length y"
    and "count_pos db = length (filter (\<lambda>label. label = 1) y)"
    and "\<forall>i j. i \<le> j \<and> j < length db \<longrightarrow> \<not> feasible db i j"
  shows "minloss (two_bias_scan y db) = 1 \<and> optbias (two_bias_scan y db) = []"
proof -
  have neg: "int (length db) - int (count_pos db) = int (count_neg db)"
    using count_pos_neg [of db] by simp
  have pos: "length (filter (\<lambda>label. label = 1) y) = count_pos db"
    using assms(2) by simp
  have tk: "take (length db) db = db" by simp
  show ?thesis
    unfolding two_bias_scan_def Let_def assms(1) [symmetric] pos neg tk
    using outer_loop_infeasible [OF refl refl refl assms(3), of "[]" db 0
        "\<lparr>tp = int (count_pos db), tn = 0, minloss = 1, optbias = [], zero_divisions = 0\<rparr>"]
    by (simp add: count_neg_Nil)
qed

text \<open>
  Claim C4, as the code has it. Let \<^verbatim>\<open>np.argsort\<close> return a permutation of the indices and
  let \<open>db\<close> be the rows in the order it gives. If no cut pair of row positions of \<open>db\<close>,
  single cuts included, meets both constraints, the two-bias scorer returns without an
  exception the score \<open>-1\<close>, with the empty bias list when the bias is asked for, and the
  main program, which tests the bias against the empty list, saves no model and reports
  that the results are not good.
\<close>

theorem two_bias_no_feasible_pair:
  assumes "mset (argsort probs) = mset [0..<length probs]"
    and "sorted_db argsort probs y = Inr db"
    and "\<forall>i j. i \<le> j \<and> j < length y \<longrightarrow> \<not> feasible db i j"
  shows "two_bias_scorer_CV argsort probs y True = Inr (ScoreBias (- 1) (Thresholds [])) \<and>
         two_bias_scorer_CV argsort probs y False = Inr (Score (- 1)) \<and>
         final_step (two_bias_scorer_CV argsort) probs y = Inr (ResultsNotGood (- 1))"
proof -
  have len: "length probs = length y"
    using assms(2) by (auto simp: sorted_db_def split: if_splits)
  have lz: "length (zip probs y) = length probs" using len by simp
  have db: "db = map (\<lambda>i. zip probs y ! i) (argsort probs)"
    using assms(2) len by (auto simp: sorted_db_def take_rows_def split: if_splits)
  have ms: "mset db = mset (zip probs y)"
    unfolding db by (rule mset_rows) (simp only: lz assms(1))
  have l: "length db = length y"
    using mset_eq_length [OF ms] len by simp
  have c: "count_pos db = length (filter (\<lambda>label. label = 1) y)"
    using count_pos_mset [OF ms] count_pos_zip [OF len] by simp
  have inf: "\<forall>i j. i \<le> j \<and> j < length db \<longrightarrow> \<not> feasible db i j"
    using assms(3) l by simp
  from two_bias_scan_infeasible [OF l c inf] show ?thesis
    using assms(2) l
    by (simp add: two_bias_scorer_CV_def two_bias_trace_def final_step_def report_def)
qed

theorem two_bias_no_feasible_pair_witness:
  "mset (insertion_argsort [1/10, 9/10]) = mset [0..<length [1/10, 9/10 :: real]] \<and>
   sorted_db insertion_argsort [1/10, 9/10] [1, 0] = Inr [(1/10, 1), (9/10, 0)] \<and>
   two_bias_scorer_CV insertion_argsort [1/10, 9/10] [1, 0] True
     = Inr (ScoreBias (- 1) (Thresholds [])) \<and>
   two_bias_scorer_CV insertion_argsort [1/10, 9/10] [1, 0] False = Inr (Score (- 1)) \<and>
   final_step (two_bias_scorer_CV insertion_argsort) [1/10, 9/10] [1, 0]
     = Inr (ResultsNotGood (- 1))"
proof -
  have h1: "mset (insertion_argsort [1/10, 9/10]) = mset [0..<length [1/10, 9/10 :: real]]"
    by (simp add: insertion_argsort_def)
  have h2: "sorted_db insertion_argsort [1/10, 9/10] [1, 0] = Inr [(1/10, 1), (9/10, 0)]"
    by (simp add: sorted_db_def insertion_argsort_def take_rows_def)
  have h3: "\<forall>i j. i \<le> j \<and> j < length [1, 0 :: int] \<longrightarrow>
                  \<not> feasible [(1/10, 1), (9/10, 0)] i j"
  proof (intro allI impI)
    fix i j :: nat assume "i \<le> j \<and> j < length [1, 0 :: int]"
    then consider "i = 0 \<and> j = 0" | "i = 0 \<and> j = 1" | "i = 1 \<and> j = 1"
      by (auto simp: less_Suc_eq le_Suc_eq)
    then show "\<not> feasible [(1/10, 1), (9/10, 0)] i j"
      by cases (simp_all add: feasible_def count_pos_def count_neg_def)
  qed
  show ?thesis using two_bias_no_feasible_pair [OF h1 h2 h3] h1 h2 by blast
qed

text \<open>
  Claim C4, counterexample. For the tied probabilities \<open>[1/2, 1/2]\<close> with the labels
  \<open>[0, 1]\<close> no pair of threshold values meets both constraints, since both samples get
  the same decision. The scorer cuts by row position: the cut after the first row has the
  negative below and the positive above, so it returns the bias \<open>[1/2, 1/2]\<close>, not the
  empty list, and the main program saves a model.
\<close>

theorem two_bias_tied_scores:
  "(\<forall>lo hi. \<not> threshold_feasible [1/2, 1/2] [0, 1] lo hi) \<and>
   two_bias_scorer_CV insertion_argsort [1/2, 1/2] [0, 1] True
     = Inr (ScoreBias (- 1) (Thresholds [1/2, 1/2])) \<and>
   final_step (two_bias_scorer_CV insertion_argsort) [1/2, 1/2] [0, 1]
     = Inr (ModelSaved (- 1) (Thresholds [1/2, 1/2]))"
proof -
  have "\<not> threshold_feasible [1/2, 1/2] [0, 1] lo hi" for lo hi
    by (cases "hi \<le> 1/2"; cases "1/2 \<le> lo") (simp_all add: threshold_feasible_def)
  moreover have "two_bias_scorer_CV insertion_argsort [1/2, 1/2] [0, 1] True
     = Inr (ScoreBias (- 1) (Thresholds [1/2, 1/2]))"
    by (simp add: scorer_defs)
  ultimately show ?thesis by (simp add: final_step_def report_def)
qed

text \<open>
  Claim C3 at the predictions \<open>[1/10, 9/10]\<close> with the labels \<open>[0, 1]\<close>: the single cut
  after the first row meets both constraints and the scorer returns the zero-width pair
  \<open>[1/10, 1/10]\<close>, but with the score \<open>-1\<close> and not \<open>0\<close>: the branch of the single cut
  stores the bias and leaves \<^verbatim>\<open>minloss\<close> at its initial value.
\<close>

theorem two_bias_single_cut_score:
  "sorted_db insertion_argsort [1/10, 9/10] [0, 1] = Inr [(1/10, 0), (9/10, 1)] \<and>
   feasible [(1/10, 0), (9/10, 1)] 0 0 \<and>
   two_bias_scorer_CV insertion_argsort [1/10, 9/10] [0, 1] True = Inr (ScoreBias (- 1) (Thresholds [1/10, 1/10]))"
  by (simp add: scorer_defs feasible_def count_pos_def count_neg_def)

text \<open>
  Claim C5 at the prediction \<open>[1/2]\<close> with the label \<open>[0]\<close>, a label vector without
  positives: the constraints are found unsatisfied (score \<open>-1\<close>, empty bias), but the test
  of the single cut computes \<^verbatim>\<open>tp / pos\<close> with \<^verbatim>\<open>pos\<close> zero, one division by zero. Only
  the inner loop guards its quotients.
\<close>

theorem two_bias_single_class_divides_by_zero:
  "two_bias_trace insertion_argsort [1/2] [0] =
     Inr \<lparr>tp = 0, tn = 1, minloss = 1, optbias = [], zero_divisions = 1\<rparr>"
  by (simp add: scorer_defs)

text \<open>
  Claim C6, counterexample. For the empty prediction vector the two-bias scorer does not
  fail: it returns the score \<open>-1\<close>.
\<close>

theorem two_bias_empty_returns_score:
  "two_bias_scorer_CV insertion_argsort [] [] False = Inr (Score (- 1))"
  by (simp add: scorer_defs)

text \<open>
  Claim C6, as the code has it. For the empty prediction vector with the empty label
  vector the two-bias scorer runs no loop pass and no division and returns normally:
  the score is \<open>-1\<close>, the bias is the empty list, and the main program reports that the
  results are not good.
\<close>

theorem two_bias_empty_input:
  "two_bias_trace insertion_argsort [] [] =
     Inr \<lparr>tp = 0, tn = 0, minloss = 1, optbias = [], zero_divisions = 0\<rparr> \<and>
   two_bias_scorer_CV insertion_argsort [] [] True = Inr (ScoreBias (- 1) (Thresholds [])) \<and>
   final_step (two_bias_scorer_CV insertion_argsort) [] [] = Inr (ResultsNotGood (- 1))"
  by (simp add: scorer_defs final_step_def report_def)

end
